theory Spec2Isabelle
  imports Main "HOL-Library.AList" "HOL-Library.Word"
begin

section \<open>The model codec of \<^verbatim>\<open>terra/models/base_model.py\<close>\<close>

text \<open>
  The module defines one class, \<^verbatim>\<open>TerraDataModel\<close>, with the encoder \<^verbatim>\<open>to_dict\<close>,
  the two decoders \<^verbatim>\<open>from_dict\<close> and \<^verbatim>\<open>from_dict_api\<close> and the merge
  \<^verbatim>\<open>populate_from_dict\<close>. All of them work by reflection on untyped Python values, so
  the embedding starts from one type of run-time values.
\<close>

subsection \<open>Run-time values\<close>

text \<open>
  A Python value as the codec can tell it apart: the six kinds of \<^verbatim>\<open>PRIMITIVES\<close>
  (\<^verbatim>\<open>str, int, bool, float, type(None), dict\<close>), a member of an \<^verbatim>\<open>enum.IntEnum\<close>
  (kept as its integer), a list, an instance of a subclass of \<^verbatim>\<open>TerraDataModel\<close>
  (its class name and its attributes), and any other object (a tuple, a bound method, a
  plain \<^verbatim>\<open>enum.Enum\<close> member, ...), which has neither \<^verbatim>\<open>to_dict\<close> nor \<^verbatim>\<open>items\<close>.
  A float is never inspected by the codec; only its 64-bit pattern is kept.
  A dict has string keys and keeps its insertion order; so does the attribute list of an
  instance, which lists the attributes in the order in which \<^verbatim>\<open>_get_attrs\<close> yields them.
\<close>

datatype val =
    VNone
  | VStr string
  | VInt int
  | VBool bool
  | VFloat "64 word"
  | VDict "(string \<times> val) list"
  | VEnum int
  | VList "val list"
  | VModel string "(string \<times> val) list"
  | VOther

datatype error = AttributeError | KeyError | IndexError | TypeError

text \<open>\<^verbatim>\<open>type(x) in PRIMITIVES\<close>: an exact type test, so an enum member is not an \<^verbatim>\<open>int\<close> here.\<close>

fun in_PRIMITIVES :: "val \<Rightarrow> bool" where
  "in_PRIMITIVES (VStr s) = True"
| "in_PRIMITIVES (VInt i) = True"
| "in_PRIMITIVES (VBool b) = True"
| "in_PRIMITIVES (VFloat f) = True"
| "in_PRIMITIVES VNone = True"
| "in_PRIMITIVES (VDict d) = True"
| "in_PRIMITIVES v = False"

fun isinstance_list :: "val \<Rightarrow> bool" where
  "isinstance_list (VList xs) = True"
| "isinstance_list v = False"

fun isinstance_TerraDataModel :: "val \<Rightarrow> bool" where
  "isinstance_TerraDataModel (VModel c attrs) = True"
| "isinstance_TerraDataModel v = False"

subsection \<open>Attribute enumeration\<close>

text \<open>
  \<^verbatim>\<open>dir(TerraDataModel)\<close>: the names the base class defines itself. Python's own
  double-underscore names are left out of the model (no key of a mapping is one of them).
\<close>

definition dir_TerraDataModel :: "string list" where
  "dir_TerraDataModel =
     [''_get_attrs'', ''from_dict'', ''from_dict_api'', ''items'', ''keys'',
      ''populate_from_dict'', ''to_dict'', ''values'']"

definition startswith_underscore :: "string \<Rightarrow> bool" where
  "startswith_underscore a = (case a of [] \<Rightarrow> False | c # cs \<Rightarrow> c = CHR ''_'')"

text \<open>The test \<^verbatim>\<open>_get_attrs\<close> applies to one name of \<^verbatim>\<open>dir(self)\<close>.\<close>

definition is_data_attr :: "string \<Rightarrow> bool" where
  "is_data_attr a = (a \<notin> set dir_TerraDataModel \<and> \<not> startswith_underscore a)"

definition get_attrs :: "(string \<times> 'a) list \<Rightarrow> string list" where
  "get_attrs attrs = filter is_data_attr (map fst attrs)"

text \<open>\<^verbatim>\<open>items()\<close> of an instance: the pairs of the enumerated attributes.\<close>

definition model_items :: "(string \<times> val) list \<Rightarrow> (string \<times> val) list" where
  "model_items attrs = filter (\<lambda>(a, v). is_data_attr a) attrs"

subsection \<open>Encode: \<^verbatim>\<open>to_dict\<close>\<close>

text \<open>
  \<^verbatim>\<open>to_dict\<close> exists on model instances only: called on anything else (as
  \<^verbatim>\<open>item.to_dict()\<close> and \<^verbatim>\<open>attr_val.to_dict()\<close> may do) it is Python's
  \<^verbatim>\<open>AttributeError\<close>. \<open>encode_attr\<close> is the body of the loop for one attribute value,
  \<open>to_dict_loop\<close> the loop over the lazily filtered attributes, \<open>to_dict_items\<close> the list
  comprehension \<^verbatim>\<open>[item.to_dict() for item in attr_val]\<close>.
\<close>

fun to_dict :: "val \<Rightarrow> error + (string \<times> val) list"
  and encode_attr :: "val \<Rightarrow> error + val"
  and to_dict_loop :: "(string \<times> val) list \<Rightarrow> error + (string \<times> val) list"
  and to_dict_items :: "val list \<Rightarrow> error + val list"
where
  "to_dict (VModel c attrs) = to_dict_loop attrs"
| "to_dict VNone = Inl AttributeError"
| "to_dict (VStr s) = Inl AttributeError"
| "to_dict (VInt i) = Inl AttributeError"
| "to_dict (VBool b) = Inl AttributeError"
| "to_dict (VFloat f) = Inl AttributeError"
| "to_dict (VDict d) = Inl AttributeError"
| "to_dict (VEnum n) = Inl AttributeError"
| "to_dict (VList xs) = Inl AttributeError"
| "to_dict VOther = Inl AttributeError"
| "encode_attr (VEnum n) = Inr (VInt n)"
| "encode_attr VNone = Inr VNone"
| "encode_attr (VStr s) = Inr (VStr s)"
| "encode_attr (VInt i) = Inr (VInt i)"
| "encode_attr (VBool b) = Inr (VBool b)"
| "encode_attr (VFloat f) = Inr (VFloat f)"
| "encode_attr (VDict d) = Inr (VDict d)"
| "encode_attr (VList []) = Inr (VList [])"
| "encode_attr (VList (x # xs)) =
     (if in_PRIMITIVES x then Inr (VList (x # xs))
      else (case to_dict_items (x # xs) of
              Inl e \<Rightarrow> Inl e
            | Inr ys \<Rightarrow> Inr (VList ys)))"
| "encode_attr (VModel c attrs) =
     (case to_dict (VModel c attrs) of Inl e \<Rightarrow> Inl e | Inr d \<Rightarrow> Inr (VDict d))"
| "encode_attr VOther =
     (case to_dict VOther of Inl e \<Rightarrow> Inl e | Inr d \<Rightarrow> Inr (VDict d))"
| "to_dict_loop [] = Inr []"
| "to_dict_loop ((attr, attr_val) # rest) =
     (if is_data_attr attr then
        (case encode_attr attr_val of
           Inl e \<Rightarrow> Inl e
         | Inr x \<Rightarrow>
             (case to_dict_loop rest of
                Inl e \<Rightarrow> Inl e
              | Inr output \<Rightarrow> Inr ((attr, x) # output)))
      else to_dict_loop rest)"
| "to_dict_items [] = Inr []"
| "to_dict_items (item # items) =
     (case to_dict item of
        Inl e \<Rightarrow> Inl e
      | Inr d \<Rightarrow>
          (case to_dict_items items of
             Inl e \<Rightarrow> Inl e
           | Inr ds \<Rightarrow> Inr (VDict d # ds)))"

subsection \<open>What the codec asks of its surroundings\<close>

text \<open>
  The concrete model classes are not part of the module; the decoders reach them in three
  ways, which the embedding takes as parameters:
  \<^item> \<open>new_instance E cls\<close>: the attributes of \<^verbatim>\<open>cls()\<close>, a freshly constructed instance;
  \<^item> \<open>field_types E cls\<close>: \<^verbatim>\<open>{field.name: str(field.type) for field in dataclasses.fields(cls())}\<close>;
  \<^item> \<open>locate E n\<close>: the model class that \<^verbatim>\<open>pydoc.locate(n)\<close> finds, if any.
  Every model class is taken to be a dataclass whose constructor needs no argument and
  does not fail. Where \<^verbatim>\<open>pydoc.locate\<close> finds nothing it returns \<^verbatim>\<open>None\<close>, and calling
  that is a \<^verbatim>\<open>TypeError\<close>; a name that it resolves to something other than a model class
  is outside the model.
\<close>

record env =
  new_instance :: "string \<Rightarrow> (string \<times> val) list"
  field_types :: "string \<Rightarrow> (string \<times> string) list"
  locate :: "string \<Rightarrow> string option"

subsection \<open>Attribute access and string helpers\<close>

text \<open>
  \<^verbatim>\<open>getattr(obj, k)\<close> finds an attribute of the instance or, failing that, a member of
  the base class (a bound method, which is none of the kinds the codec knows).
  \<^verbatim>\<open>getattr(obj, k, *(("NOT_FOUND",) if safe else ()))\<close> raises for a missing name when
  \<^verbatim>\<open>safe\<close> is false and yields the string \<^verbatim>\<open>"NOT_FOUND"\<close> when it is true.
  \<^verbatim>\<open>setattr(obj, k, v)\<close> is \<^const>\<open>AList.update\<close>: it replaces the value or adds the
  attribute.
\<close>

definition getattr_opt :: "(string \<times> val) list \<Rightarrow> string \<Rightarrow> val option" where
  "getattr_opt attrs k =
     (case map_of attrs k of
        Some v \<Rightarrow> Some v
      | None \<Rightarrow> if k \<in> set dir_TerraDataModel then Some VOther else None)"

definition getattr_safe :: "(string \<times> val) list \<Rightarrow> string \<Rightarrow> bool \<Rightarrow> error + val" where
  "getattr_safe attrs k safe =
     (case getattr_opt attrs k of
        Some v \<Rightarrow> Inr v
      | None \<Rightarrow> if safe then Inr (VStr ''NOT_FOUND'') else Inl AttributeError)"

text \<open>\<^verbatim>\<open>hasattr(obj, k)\<close>: whether \<^verbatim>\<open>getattr(obj, k)\<close> finds something.\<close>

definition hasattr :: "(string \<times> val) list \<Rightarrow> string \<Rightarrow> bool" where
  "hasattr attrs k = (getattr_opt attrs k \<noteq> None)"

text \<open>\<^verbatim>\<open>x in [None, []]\<close>\<close>

definition in_None_or_empty :: "val \<Rightarrow> bool" where
  "in_None_or_empty x = (x = VNone \<or> x = VList [])"

text \<open>
  \<^verbatim>\<open>model_dict.items()\<close>: the pairs of a dict; of a model instance, the pairs its own
  \<^verbatim>\<open>items\<close> method yields; no other kind of value has \<^verbatim>\<open>items\<close>.
\<close>

fun dict_items :: "val \<Rightarrow> error + (string \<times> val) list" where
  "dict_items (VDict d) = Inr d"
| "dict_items (VModel c attrs) = Inr (model_items attrs)"
| "dict_items v = Inl AttributeError"

text \<open>\<^verbatim>\<open>s.split(sep)\<close> for a separator of one character, and \<^verbatim>\<open>pieces[i]\<close>.\<close>

fun split_on :: "char \<Rightarrow> string \<Rightarrow> string list" where
  "split_on sep [] = [[]]"
| "split_on sep (x # xs) =
     (if x = sep then [] # split_on sep xs
      else (case split_on sep xs of p # ps \<Rightarrow> (x # p) # ps | [] \<Rightarrow> [[x]]))"

definition piece :: "string list \<Rightarrow> nat \<Rightarrow> error + string" where
  "piece ps i = (if i < length ps then Inr (ps ! i) else Inl IndexError)"

text \<open>
  Lines 115 to 122: the declared type of field \<^verbatim>\<open>k\<close> is looked up (\<^verbatim>\<open>z[k]\<close>, a
  \<^verbatim>\<open>KeyError\<close> when \<^verbatim>\<open>k\<close> is no field), cut to
  \<^verbatim>\<open>str(z[k]).split("[")[1].split("]")[0]\<close> (an \<^verbatim>\<open>IndexError\<close> when the type has no
  bracket), and prefixed with \<^verbatim>\<open>terra.\<close> when its first dotted segment is \<^verbatim>\<open>models\<close>.
\<close>

definition current_field_name :: "env \<Rightarrow> string \<Rightarrow> string \<Rightarrow> error + string" where
  "current_field_name E cls k =
     (case map_of (field_types E cls) k of
        None \<Rightarrow> Inl KeyError
      | Some ty \<Rightarrow>
          (case piece (split_on (CHR ''['') ty) 1 of
             Inl e \<Rightarrow> Inl e
           | Inr s \<Rightarrow>
               (case piece (split_on (CHR '']'') s) 0 of
                  Inl e \<Rightarrow> Inl e
                | Inr n \<Rightarrow>
                    if piece (split_on (CHR ''.'') n) 0 = Inr ''models''
                    then Inr (''terra.'' @ n) else Inr n)))"

text \<open>Line 125: \<^verbatim>\<open>current_field_name.split(".")[0] == "terra"\<close>\<close>

definition is_terra_name :: "string \<Rightarrow> bool" where
  "is_terra_name n = (piece (split_on (CHR ''.'') n) 0 = Inr ''terra'')"

subsection \<open>Decode, strict form: \<^verbatim>\<open>from_dict\<close>\<close>

text \<open>The condition of lines 100 to 104, under which a key is assigned.\<close>

definition overwrite_eligible :: "val \<Rightarrow> val \<Rightarrow> bool" where
  "overwrite_eligible inner_item v =
     (in_None_or_empty inner_item \<or> isinstance_TerraDataModel inner_item \<or> isinstance_list v)"

lemma size_model_items: "size_list f (model_items attrs) \<le> size_list f attrs"
  by (induction attrs) (auto simp: model_items_def)

lemma size_dict_items:
  "dict_items v = Inr kvs \<Longrightarrow> size_list (size_prod (\<lambda>x. 0) size) kvs < size v"
  by (cases v) (auto simp: less_Suc_eq_le size_model_items)

text \<open>
  \<^verbatim>\<open>type(obj)\<close> of a model instance, as the class name, and the elements of a list
  (both are only asked of a value of the right kind).
\<close>

fun type_name :: "val \<Rightarrow> string" where
  "type_name (VModel c attrs) = c"
| "type_name v = []"

fun list_elems :: "val \<Rightarrow> val list" where
  "list_elems (VList xs) = xs"
| "list_elems v = []"

lemma size_list_elems: "size_list size (list_elems v) \<le> Suc (size v + n)"
  by (cases v) auto

text \<open>
  \<open>from_dict E cls model_dict safe\<close> is the class method called on class \<open>cls\<close>;
  \<open>from_dict_loop\<close> is its \<^verbatim>\<open>for k, v in model_dict.items()\<close> with the attributes of
  \<^verbatim>\<open>data_model\<close> as the loop's state; \<open>from_dict_items\<close> is the inner
  \<^verbatim>\<open>for inner_dict in v\<close>. A call through an instance, \<^verbatim>\<open>inner_item.from_dict(v)\<close>, is the
  class method of the instance's class with \<^verbatim>\<open>safe\<close> at its default \<^verbatim>\<open>False\<close>.

  The source runs \<^verbatim>\<open>if isinstance(inner_item, TerraDataModel): v = inner_item.from_dict(v)\<close>
  and then \<^verbatim>\<open>if isinstance(v, list): ...\<close> one after the other. The recursion below
  writes the two as alternatives (a decoded model is never a list), so that every
  recursive call is on a part of the incoming mapping; \<open>from_dict_loop_source\<close> further
  down gives the equation in the source's sequential shape.
\<close>

function from_dict :: "env \<Rightarrow> string \<Rightarrow> val \<Rightarrow> bool \<Rightarrow> error + val"
  and from_dict_loop ::
    "env \<Rightarrow> string \<Rightarrow> bool \<Rightarrow> (string \<times> val) list \<Rightarrow> (string \<times> val) list \<Rightarrow> error + val"
  and from_dict_items :: "env \<Rightarrow> string \<Rightarrow> val list \<Rightarrow> error + val list"
where
  "from_dict E cls model_dict safe =
     (case dict_items model_dict of
        Inl e \<Rightarrow> Inl e
      | Inr kvs \<Rightarrow> from_dict_loop E cls safe (new_instance E cls) kvs)"
| "from_dict_loop E cls safe data_model [] = Inr (VModel cls data_model)"
| "from_dict_loop E cls safe data_model ((k, v) # rest) =
     (case getattr_safe data_model k safe of
        Inl e \<Rightarrow> Inl e
      | Inr inner_item \<Rightarrow>
          if overwrite_eligible inner_item v
          then
            if isinstance_TerraDataModel inner_item
            then
              (case from_dict E (type_name inner_item) v False of
                 Inl e \<Rightarrow> Inl e
               | Inr m \<Rightarrow> from_dict_loop E cls safe (AList.update k m data_model) rest)
            else if isinstance_list v \<and> v \<noteq> VList []
            then
              (case current_field_name E cls k of
                 Inl e \<Rightarrow> Inl e
               | Inr n \<Rightarrow>
                   if is_terra_name n
                   then
                     (case from_dict_items E n (list_elems v) of
                        Inl e \<Rightarrow> Inl e
                      | Inr result \<Rightarrow>
                          from_dict_loop E cls safe
                            (AList.update k (VList result) data_model) rest)
                   else from_dict_loop E cls safe (AList.update k v data_model) rest)
            else from_dict_loop E cls safe (AList.update k v data_model) rest
          else from_dict_loop E cls safe data_model rest)"
| "from_dict_items E n [] = Inr []"
| "from_dict_items E n (inner_dict # rest) =
     (case locate E n of
        None \<Rightarrow> Inl TypeError
      | Some c \<Rightarrow>
          (case from_dict E c inner_dict False of
             Inl e \<Rightarrow> Inl e
           | Inr m \<Rightarrow>
               (case from_dict_items E n rest of
                  Inl e \<Rightarrow> Inl e
                | Inr result \<Rightarrow> Inr (m # result))))"
  by pat_completeness auto
termination
  by (relation "measure (\<lambda>x. case x of
      Inl (E, cls, v, safe) \<Rightarrow> size v
    | Inr (Inl (E, cls, safe, dm, kvs)) \<Rightarrow> size_list (size_prod (\<lambda>x. 0) size) kvs
    | Inr (Inr (E, n, xs)) \<Rightarrow> size_list size xs)")
    (simp_all add: size_dict_items less_Suc_eq_le size_list_elems)

subsection \<open>Decode, permissive form: \<^verbatim>\<open>from_dict_api\<close>\<close>

text \<open>The condition of lines 166 to 168.\<close>

definition overwrite_eligible_api :: "val \<Rightarrow> bool" where
  "overwrite_eligible_api inner_item =
     (in_None_or_empty inner_item \<or> isinstance_TerraDataModel inner_item)"

function from_dict_api :: "env \<Rightarrow> string \<Rightarrow> val \<Rightarrow> bool \<Rightarrow> error + val"
  and from_dict_api_loop ::
    "env \<Rightarrow> string \<Rightarrow> bool \<Rightarrow> (string \<times> val) list \<Rightarrow> (string \<times> val) list \<Rightarrow> error + val"
where
  "from_dict_api E cls model_dict safe =
     (case dict_items model_dict of
        Inl e \<Rightarrow> Inl e
      | Inr kvs \<Rightarrow> from_dict_api_loop E cls safe (new_instance E cls) kvs)"
| "from_dict_api_loop E cls safe data_model [] = Inr (VModel cls data_model)"
| "from_dict_api_loop E cls safe data_model ((k, v) # rest) =
     (case getattr_safe data_model k safe of
        Inl e \<Rightarrow> Inl e
      | Inr inner_item \<Rightarrow>
          if overwrite_eligible_api inner_item
          then
            if isinstance_TerraDataModel inner_item
            then
              (case from_dict_api E (type_name inner_item) v False of
                 Inl e \<Rightarrow> Inl e
               | Inr m \<Rightarrow> from_dict_api_loop E cls safe (AList.update k m data_model) rest)
            else from_dict_api_loop E cls safe (AList.update k v data_model) rest
          else from_dict_api_loop E cls safe data_model rest)"
  by pat_completeness auto
termination
  by (relation "measure (\<lambda>x. case x of
      Inl (E, cls, v, safe) \<Rightarrow> size v
    | Inr (E, cls, safe, dm, kvs) \<Rightarrow> size_list (size_prod (\<lambda>x. 0) size) kvs)")
    (simp_all add: size_dict_items)

subsection \<open>Merge missing: \<^verbatim>\<open>populate_from_dict\<close>\<close>

text \<open>
  The method mutates \<^verbatim>\<open>self\<close> and returns it: the attributes of \<^verbatim>\<open>self\<close> are the state
  of the loop, and the result is the instance with the attributes the loop leaves.
\<close>

fun populate_loop ::
  "bool \<Rightarrow> (string \<times> val) list \<Rightarrow> (string \<times> val) list \<Rightarrow> error + (string \<times> val) list"
where
  "populate_loop safe self [] = Inr self"
| "populate_loop safe self ((k, v) # rest) =
     (case getattr_safe self k safe of
        Inl e \<Rightarrow> Inl e
      | Inr cur \<Rightarrow>
          if cur = VNone then populate_loop safe (AList.update k v self) rest
          else populate_loop safe self rest)"

fun populate_from_dict :: "val \<Rightarrow> val \<Rightarrow> bool \<Rightarrow> error + val" where
  "populate_from_dict (VModel c attrs) model_dict safe =
     (case dict_items model_dict of
        Inl e \<Rightarrow> Inl e
      | Inr kvs \<Rightarrow>
          (case populate_loop safe attrs kvs of
             Inl e \<Rightarrow> Inl e
           | Inr attrs' \<Rightarrow> Inr (VModel c attrs')))"
| "populate_from_dict self model_dict safe = Inl AttributeError"

section \<open>One iteration of each decoding loop\<close>

text \<open>
  The bodies of the two \<^verbatim>\<open>for k, v in model_dict.items()\<close> loops, statement by statement
  as the source has them, as functions from the attributes of \<^verbatim>\<open>data_model\<close> before the
  iteration to those after it.
\<close>

lemma from_dict_loop_is_model:
  "from_dict_loop E cls safe dm kvs = Inr r \<Longrightarrow> \<exists>attrs. r = VModel cls attrs"
proof (induction kvs arbitrary: dm)
  case Nil
  then show ?case by auto
next
  case (Cons kv kvs)
  obtain k v where kv: "kv = (k, v)" by (cases kv)
  from Cons.prems show ?case
    unfolding kv from_dict_loop.simps
    by (auto split: sum.splits if_splits dest: Cons.IH)
qed

lemma from_dict_is_model:
  "from_dict E cls v safe = Inr r \<Longrightarrow> \<exists>attrs. r = VModel cls attrs"
  by (auto split: sum.splits dest: from_dict_loop_is_model)

declare from_dict_loop.simps(2) [simp del]
declare from_dict.simps [simp del]
declare from_dict_api_loop.simps(2) [simp del]
declare from_dict_api.simps [simp del]

text \<open>Lines 106 and 107: \<^verbatim>\<open>if isinstance(inner_item, TerraDataModel): v = inner_item.from_dict(v)\<close>\<close>

definition decode_nested :: "env \<Rightarrow> val \<Rightarrow> val \<Rightarrow> error + val" where
  "decode_nested E inner_item v =
     (if isinstance_TerraDataModel inner_item then from_dict E (type_name inner_item) v False
      else Inr v)"

text \<open>Lines 110 to 141: \<^verbatim>\<open>if isinstance(v, list): if v != []: ...\<close>\<close>

definition resolve_list :: "env \<Rightarrow> string \<Rightarrow> string \<Rightarrow> val \<Rightarrow> error + val" where
  "resolve_list E cls k v =
     (if isinstance_list v then
        if v \<noteq> VList [] then
          (case current_field_name E cls k of
             Inl e \<Rightarrow> Inl e
           | Inr n \<Rightarrow>
               if is_terra_name n
               then (case from_dict_items E n (list_elems v) of
                       Inl e \<Rightarrow> Inl e
                     | Inr result \<Rightarrow> Inr (VList result))
               else Inr v)
        else Inr v
      else Inr v)"

text \<open>Lines 100 to 143.\<close>

definition from_dict_step ::
  "env \<Rightarrow> string \<Rightarrow> bool \<Rightarrow> (string \<times> val) list \<Rightarrow> string \<Rightarrow> val \<Rightarrow> error + (string \<times> val) list"
where
  "from_dict_step E cls safe data_model k v =
     (case getattr_safe data_model k safe of
        Inl e \<Rightarrow> Inl e
      | Inr inner_item \<Rightarrow>
          if overwrite_eligible inner_item v
          then (case decode_nested E inner_item v of
                  Inl e \<Rightarrow> Inl e
                | Inr v1 \<Rightarrow>
                    (case resolve_list E cls k v1 of
                       Inl e \<Rightarrow> Inl e
                     | Inr v2 \<Rightarrow> Inr (AList.update k v2 data_model)))
          else Inr data_model)"

lemma resolve_list_model: "resolve_list E cls k (VModel c a) = Inr (VModel c a)"
  by (simp add: resolve_list_def)

lemma decode_nested_model [simp]:
  "decode_nested E (VModel c a) v = from_dict E c v False"
  by (simp add: decode_nested_def)

lemma decode_nested_other [simp]:
  "\<not> isinstance_TerraDataModel inner_item \<Longrightarrow> decode_nested E inner_item v = Inr v"
  by (simp add: decode_nested_def)

lemma resolve_list_Cons [simp]:
  "resolve_list E cls k (VList (x # xs)) =
     (case current_field_name E cls k of
        Inl e \<Rightarrow> Inl e
      | Inr n \<Rightarrow>
          if is_terra_name n
          then (case from_dict_items E n (x # xs) of
                  Inl e \<Rightarrow> Inl e
                | Inr result \<Rightarrow> Inr (VList result))
          else Inr (VList (x # xs)))"
  by (simp add: resolve_list_def split: sum.splits)

lemma resolve_list_other [simp]:
  "\<not> isinstance_list v \<or> v = VList [] \<Longrightarrow> resolve_list E cls k v = Inr v"
  by (auto simp: resolve_list_def)

lemma from_dict_loop_source:
  "from_dict_loop E cls safe data_model ((k, v) # rest) =
     (case from_dict_step E cls safe data_model k v of
        Inl e \<Rightarrow> Inl e
      | Inr data_model' \<Rightarrow> from_dict_loop E cls safe data_model' rest)"
proof (cases "getattr_safe data_model k safe")
  case (Inl e)
  then show ?thesis by (simp add: from_dict_loop.simps(2) from_dict_step_def)
next
  case (Inr inner_item)
  note found = this
  show ?thesis
  proof (cases "overwrite_eligible inner_item v")
    case False
    with found show ?thesis by (simp add: from_dict_loop.simps(2) from_dict_step_def)
  next
    case True
    note eligible = this
    show ?thesis
    proof (cases "isinstance_TerraDataModel inner_item")
      case True
      then obtain c a where m: "inner_item = VModel c a" by (cases inner_item) auto
      show ?thesis
      proof (cases "from_dict E c v False")
        case (Inl e)
        with found m eligible show ?thesis
          by (simp add: from_dict_loop.simps(2) from_dict_step_def)
      next
        case (Inr r)
        then obtain attrs where "r = VModel c attrs" by (auto dest: from_dict_is_model)
        with Inr found m eligible show ?thesis
          by (simp add: from_dict_loop.simps(2) from_dict_step_def)
      qed
    next
      case False
      with found eligible show ?thesis
        by (simp add: from_dict_loop.simps(2) from_dict_step_def resolve_list_def
            split: sum.splits)
    qed
  qed
qed

text \<open>Lines 169 to 171 and lines 166 to 173 of \<^verbatim>\<open>from_dict_api\<close>.\<close>

definition decode_nested_api :: "env \<Rightarrow> val \<Rightarrow> val \<Rightarrow> error + val" where
  "decode_nested_api E inner_item v =
     (if isinstance_TerraDataModel inner_item
      then from_dict_api E (type_name inner_item) v False
      else Inr v)"

definition from_dict_api_step ::
  "env \<Rightarrow> string \<Rightarrow> bool \<Rightarrow> (string \<times> val) list \<Rightarrow> string \<Rightarrow> val \<Rightarrow> error + (string \<times> val) list"
where
  "from_dict_api_step E cls safe data_model k v =
     (case getattr_safe data_model k safe of
        Inl e \<Rightarrow> Inl e
      | Inr inner_item \<Rightarrow>
          if overwrite_eligible_api inner_item
          then (case decode_nested_api E inner_item v of
                  Inl e \<Rightarrow> Inl e
                | Inr v1 \<Rightarrow> Inr (AList.update k v1 data_model))
          else Inr data_model)"

lemma decode_nested_api_model [simp]:
  "decode_nested_api E (VModel c a) v = from_dict_api E c v False"
  by (simp add: decode_nested_api_def)

lemma decode_nested_api_other [simp]:
  "\<not> isinstance_TerraDataModel inner_item \<Longrightarrow> decode_nested_api E inner_item v = Inr v"
  by (simp add: decode_nested_api_def)

lemma from_dict_api_loop_source:
  "from_dict_api_loop E cls safe data_model ((k, v) # rest) =
     (case from_dict_api_step E cls safe data_model k v of
        Inl e \<Rightarrow> Inl e
      | Inr data_model' \<Rightarrow> from_dict_api_loop E cls safe data_model' rest)"
  by (auto simp: from_dict_api_loop.simps(2) from_dict_api_step_def decode_nested_api_def
      split: sum.splits)

section \<open>An example environment\<close>

text \<open>
  Four model classes for the concrete instances below.
  \<^item> \<^verbatim>\<open>Inner\<close>: two plain fields with the default \<^verbatim>\<open>None\<close>.
  \<^item> \<^verbatim>\<open>Counter\<close>: one field, \<^verbatim>\<open>count: int = 0\<close>.
  \<^item> \<^verbatim>\<open>Record\<close>: a plain field with the default \<^verbatim>\<open>None\<close>, a nested \<^verbatim>\<open>Inner\<close> built
    by \<^verbatim>\<open>default_factory=Inner\<close>, a list of \<^verbatim>\<open>Inner\<close> and a list of \<^verbatim>\<open>str\<close>, both
    with \<^verbatim>\<open>default_factory=list\<close>.
  \<^item> \<^verbatim>\<open>Outer\<close>: as \<^verbatim>\<open>Record\<close>, but with defaults of its own: a field \<^verbatim>\<open>n\<close> with the
    default \<^verbatim>\<open>3\<close>, a nested \<^verbatim>\<open>Inner\<close> that the constructor builds with \<^verbatim>\<open>a = 5\<close>,
    a list of \<^verbatim>\<open>str\<close> that starts as \<^verbatim>\<open>["new"]\<close>, and a list whose declared element
    type \<^verbatim>\<open>models.Missing\<close> names no class.
\<close>

definition demo_env :: env where
  "demo_env =
     \<lparr> new_instance = (\<lambda>c.
         if c = ''Outer'' then
           [(''name'', VNone), (''n'', VInt 3),
            (''inner'', VModel ''Inner'' [(''a'', VInt 5), (''b'', VNone)]),
            (''parts'', VList []), (''tags'', VList [VStr ''new'']),
            (''missing'', VList [])]
         else if c = ''Record'' then
           [(''title'', VNone), (''inner'', VModel ''Inner'' [(''a'', VNone), (''b'', VNone)]),
            (''parts'', VList []), (''tags'', VList [])]
         else if c = ''Inner'' then [(''a'', VNone), (''b'', VNone)]
         else if c = ''Counter'' then [(''count'', VInt 0)]
         else []),
       field_types = (\<lambda>c.
         if c = ''Outer'' then
           [(''name'', ''str''), (''n'', ''int''), (''inner'', ''models.Inner''),
            (''parts'', ''typing.List[models.Inner]''), (''tags'', ''typing.List[str]''),
            (''missing'', ''typing.List[models.Missing]'')]
         else if c = ''Record'' then
           [(''title'', ''str''), (''inner'', ''models.Inner''),
            (''parts'', ''typing.List[models.Inner]''), (''tags'', ''typing.List[str]'')]
         else if c = ''Inner'' then [(''a'', ''int''), (''b'', ''int'')]
         else if c = ''Counter'' then [(''count'', ''int'')]
         else []),
       locate = (\<lambda>n. if n = ''terra.models.Inner'' then Some ''Inner'' else None) \<rparr>"

section \<open>Keys that a decoding loop leaves alone\<close>

lemma getattr_opt_update_other:
  "k \<noteq> k' \<Longrightarrow> getattr_opt (AList.update k' m dm) k = getattr_opt dm k"
  by (simp add: getattr_opt_def update_conv')

lemma getattr_opt_update_same: "getattr_opt (AList.update k m dm) k = Some m"
  by (simp add: getattr_opt_def update_conv')

lemma from_dict_step_other:
  "from_dict_step E cls safe dm k' v = Inr dm' \<Longrightarrow> k \<noteq> k' \<Longrightarrow> getattr_opt dm' k = getattr_opt dm k"
  by (auto simp: from_dict_step_def getattr_opt_update_other split: sum.splits if_splits)

lemma from_dict_api_step_other:
  "from_dict_api_step E cls safe dm k' v = Inr dm' \<Longrightarrow> k \<noteq> k' \<Longrightarrow> getattr_opt dm' k = getattr_opt dm k"
  by (auto simp: from_dict_api_step_def getattr_opt_update_other split: sum.splits if_splits)

lemma not_eligible:
  "x \<noteq> VNone \<Longrightarrow> x \<noteq> VList [] \<Longrightarrow> \<not> isinstance_TerraDataModel x \<Longrightarrow> \<not> isinstance_list v
   \<Longrightarrow> \<not> overwrite_eligible x v \<and> \<not> overwrite_eligible_api x"
  by (simp add: overwrite_eligible_def overwrite_eligible_api_def in_None_or_empty_def)

lemma from_dict_step_skip:
  "getattr_opt dm k = Some x \<Longrightarrow> \<not> overwrite_eligible x v \<Longrightarrow> from_dict_step E cls safe dm k v = Inr dm"
  by (simp add: from_dict_step_def getattr_safe_def)

lemma from_dict_api_step_skip:
  "getattr_opt dm k = Some x \<Longrightarrow> \<not> overwrite_eligible_api x \<Longrightarrow> from_dict_api_step E cls safe dm k v = Inr dm"
  by (simp add: from_dict_api_step_def getattr_safe_def)

lemma from_dict_loop_keeps:
  assumes "getattr_opt dm k = Some x"
    and "\<forall>w. (k, w) \<in> set kvs \<longrightarrow> \<not> overwrite_eligible x w"
    and "from_dict_loop E cls safe dm kvs = Inr r"
  shows "\<exists>attrs. r = VModel cls attrs \<and> getattr_opt attrs k = Some x"
  using assms
proof (induction kvs arbitrary: dm)
  case Nil
  then show ?case by auto
next
  case (Cons kv kvs)
  obtain k' v' where kv: "kv = (k', v')" by (cases kv)
  from Cons.prems(3) obtain dm' where
    step: "from_dict_step E cls safe dm k' v' = Inr dm'" and
    rest: "from_dict_loop E cls safe dm' kvs = Inr r"
    unfolding kv from_dict_loop_source by (auto split: sum.splits)
  have "getattr_opt dm' k = Some x"
  proof (cases "k' = k")
    case True
    with Cons.prems(1,2) kv have "from_dict_step E cls safe dm k' v' = Inr dm"
      by (simp add: from_dict_step_skip)
    with step Cons.prems(1) show ?thesis by simp
  next
    case False
    with step Cons.prems(1) show ?thesis by (simp add: from_dict_step_other)
  qed
  moreover have "\<forall>w. (k, w) \<in> set kvs \<longrightarrow> \<not> overwrite_eligible x w"
    using Cons.prems(2) by simp
  ultimately show ?case using rest by (rule Cons.IH)
qed

lemma from_dict_api_loop_keeps:
  assumes "getattr_opt dm k = Some x"
    and "\<not> overwrite_eligible_api x"
    and "from_dict_api_loop E cls safe dm kvs = Inr r"
  shows "\<exists>attrs. r = VModel cls attrs \<and> getattr_opt attrs k = Some x"
  using assms
proof (induction kvs arbitrary: dm)
  case Nil
  then show ?case by auto
next
  case (Cons kv kvs)
  obtain k' v' where kv: "kv = (k', v')" by (cases kv)
  from Cons.prems(3) obtain dm' where
    step: "from_dict_api_step E cls safe dm k' v' = Inr dm'" and
    rest: "from_dict_api_loop E cls safe dm' kvs = Inr r"
    unfolding kv from_dict_api_loop_source by (auto split: sum.splits)
  have "getattr_opt dm' k = Some x"
  proof (cases "k' = k")
    case True
    with Cons.prems(1,2) have "from_dict_api_step E cls safe dm k' v' = Inr dm"
      by (simp add: from_dict_api_step_skip)
    with step Cons.prems(1) show ?thesis by simp
  next
    case False
    with step Cons.prems(1) show ?thesis by (simp add: from_dict_api_step_other)
  qed
  then show ?case using Cons.prems(2) rest by (rule Cons.IH)
qed


lemma from_dict_loop_frame:
  assumes "from_dict_loop E cls safe dm kvs = Inr r"
  shows "\<exists>attrs. r = VModel cls attrs \<and>
           (\<forall>f. f \<notin> fst ` set kvs \<longrightarrow> getattr_opt attrs f = getattr_opt dm f)"
  using assms
proof (induction kvs arbitrary: dm)
  case Nil
  then show ?case by auto
next
  case (Cons kv kvs)
  obtain k v where kv: "kv = (k, v)" by (cases kv)
  from Cons.prems obtain dm' where
    step: "from_dict_step E cls safe dm k v = Inr dm'" and
    rest: "from_dict_loop E cls safe dm' kvs = Inr r"
    unfolding kv from_dict_loop_source by (auto split: sum.splits)
  from Cons.IH [OF rest] obtain attrs where
    a: "r = VModel cls attrs" "\<forall>f. f \<notin> fst ` set kvs \<longrightarrow> getattr_opt attrs f = getattr_opt dm' f"
    by auto
  have "getattr_opt attrs f = getattr_opt dm f" if "f \<notin> fst ` set (kv # kvs)" for f
  proof -
    from that kv have "f \<noteq> k" "f \<notin> fst ` set kvs" by auto
    with a(2) step show ?thesis by (simp add: from_dict_step_other)
  qed
  with a(1) show ?case by blast
qed

lemma from_dict_api_loop_frame:
  assumes "from_dict_api_loop E cls safe dm kvs = Inr r"
  shows "\<exists>attrs. r = VModel cls attrs \<and>
           (\<forall>f. f \<notin> fst ` set kvs \<longrightarrow> getattr_opt attrs f = getattr_opt dm f)"
  using assms
proof (induction kvs arbitrary: dm)
  case Nil
  then show ?case by auto
next
  case (Cons kv kvs)
  obtain k v where kv: "kv = (k, v)" by (cases kv)
  from Cons.prems obtain dm' where
    step: "from_dict_api_step E cls safe dm k v = Inr dm'" and
    rest: "from_dict_api_loop E cls safe dm' kvs = Inr r"
    unfolding kv from_dict_api_loop_source by (auto split: sum.splits)
  from Cons.IH [OF rest] obtain attrs where
    a: "r = VModel cls attrs" "\<forall>f. f \<notin> fst ` set kvs \<longrightarrow> getattr_opt attrs f = getattr_opt dm' f"
    by auto
  have "getattr_opt attrs f = getattr_opt dm f" if "f \<notin> fst ` set (kv # kvs)" for f
  proof -
    from that kv have "f \<noteq> k" "f \<notin> fst ` set kvs" by auto
    with a(2) step show ?thesis by (simp add: from_dict_api_step_other)
  qed
  with a(1) show ?case by blast
qed

text \<open>
  Claim C7. Let the attribute \<open>k\<close> of \<^verbatim>\<open>data_model\<close> exist with a value that is not
  \<^verbatim>\<open>None\<close>, not the empty list and not a nested model, and let the incoming value \<open>v\<close>
  not be a list. Then the iteration for \<open>(k, v)\<close>, of \<^verbatim>\<open>from_dict\<close> and of
  \<^verbatim>\<open>from_dict_api\<close> alike, raises nothing and leaves \<^verbatim>\<open>data_model\<close> as it was; and
  whenever a whole call on a mapping with that entry returns, the attribute \<open>k\<close> of the
  result still holds the value the fresh instance had.
\<close>

theorem silent_skip:
  assumes "getattr_opt data_model k = Some x"
    and "x \<noteq> VNone" and "x \<noteq> VList []" and "\<not> isinstance_TerraDataModel x"
    and "\<not> isinstance_list v"
  shows "from_dict_step E cls safe data_model k v = Inr data_model \<and>
         from_dict_api_step E cls safe data_model k v = Inr data_model \<and>
         (\<forall>d r. data_model = new_instance E cls \<and> distinct (map fst d) \<and> (k, v) \<in> set d \<and>
                from_dict E cls (VDict d) safe = Inr r \<longrightarrow>
                (\<exists>attrs. r = VModel cls attrs \<and> getattr_opt attrs k = Some x)) \<and>
         (\<forall>d r. data_model = new_instance E cls \<and> distinct (map fst d) \<and> (k, v) \<in> set d \<and>
                from_dict_api E cls (VDict d) safe = Inr r \<longrightarrow>
                (\<exists>attrs. r = VModel cls attrs \<and> getattr_opt attrs k = Some x))"
proof -
  from assms(2-5) have ne: "\<not> overwrite_eligible x v" "\<not> overwrite_eligible_api x"
    using not_eligible by auto
  have 1: "from_dict_step E cls safe data_model k v = Inr data_model"
    using assms(1) ne(1) by (rule from_dict_step_skip)
  have 2: "from_dict_api_step E cls safe data_model k v = Inr data_model"
    using assms(1) ne(2) by (rule from_dict_api_step_skip)
  have 3: "\<exists>attrs. r = VModel cls attrs \<and> getattr_opt attrs k = Some x"
    if new: "data_model = new_instance E cls" and d: "distinct (map fst d)" "(k, v) \<in> set d"
      and r: "from_dict E cls (VDict d) safe = Inr r" for d r
  proof -
    have "\<forall>w. (k, w) \<in> set d \<longrightarrow> \<not> overwrite_eligible x w"
      using d ne(1) by (auto dest: eq_key_imp_eq_value)
    moreover from r new have "from_dict_loop E cls safe data_model d = Inr r"
      by (simp add: from_dict.simps)
    ultimately show ?thesis using assms(1) by (intro from_dict_loop_keeps)
  qed
  have 4: "\<exists>attrs. r = VModel cls attrs \<and> getattr_opt attrs k = Some x"
    if new: "data_model = new_instance E cls"
      and r: "from_dict_api E cls (VDict d) safe = Inr r" for d r
  proof -
    from r new have "from_dict_api_loop E cls safe data_model d = Inr r"
      by (simp add: from_dict_api.simps)
    with assms(1) ne(2) show ?thesis by (intro from_dict_api_loop_keeps)
  qed
  from 1 2 3 4 show ?thesis by blast
qed


theorem silent_skip_witness:
  "from_dict_step demo_env ''Outer'' False (new_instance demo_env ''Outer'') ''n'' (VInt 9)
     = Inr (new_instance demo_env ''Outer'') \<and>
   from_dict demo_env ''Outer'' (VDict [(''n'', VInt 9)]) False
     = Inr (VModel ''Outer'' (new_instance demo_env ''Outer'')) \<and>
   from_dict_api demo_env ''Outer'' (VDict [(''n'', VInt 9)]) False
     = Inr (VModel ''Outer'' (new_instance demo_env ''Outer'')) \<and>
   getattr_opt (new_instance demo_env ''Outer'') ''n'' = Some (VInt 3)"
  using silent_skip [of "new_instance demo_env ''Outer''" "''n''" "VInt 3" "VInt 9"
      demo_env "''Outer''" False]
  by (simp add: demo_env_def getattr_opt_def from_dict.simps from_dict_api.simps
      from_dict_loop_source from_dict_api_loop_source from_dict_api_step_def getattr_safe_def
      overwrite_eligible_api_def in_None_or_empty_def)

section \<open>The two conditions of assignment\<close>

text \<open>
  Claim C3, as stated, is false: \<^verbatim>\<open>from_dict\<close> also enters its assignment branch when
  the incoming value is a list, whatever the existing value is, and \<^verbatim>\<open>from_dict_api\<close>
  does not. With the existing list \<^verbatim>\<open>["new"]\<close> and the incoming list \<^verbatim>\<open>["a"]\<close> the first
  condition holds and the second fails; \<^verbatim>\<open>from_dict\<close> assigns the incoming list and
  \<^verbatim>\<open>from_dict_api\<close> keeps the existing one.
\<close>

theorem eligibility_differs:
  "overwrite_eligible (VList [VStr ''new'']) (VList [VStr ''a'']) \<and>
   \<not> overwrite_eligible_api (VList [VStr ''new'']) \<and>
   from_dict demo_env ''Outer'' (VDict [(''tags'', VList [VStr ''a''])]) False =
     Inr (VModel ''Outer'' (AList.update ''tags'' (VList [VStr ''a'']) (new_instance demo_env ''Outer''))) \<and>
   from_dict_api demo_env ''Outer'' (VDict [(''tags'', VList [VStr ''a''])]) False =
     Inr (VModel ''Outer'' (new_instance demo_env ''Outer''))"
  by (simp add: overwrite_eligible_def overwrite_eligible_api_def in_None_or_empty_def
      from_dict.simps from_dict_api.simps from_dict_loop_source from_dict_api_loop_source
      from_dict_step_def from_dict_api_step_def getattr_safe_def getattr_opt_def demo_env_def
      decode_nested_def resolve_list_def current_field_name_def piece_def is_terra_name_def)

text \<open>
  Claim C3, amended. \<^verbatim>\<open>from_dict_api\<close> enters its assignment branch exactly when the
  existing value is \<^verbatim>\<open>None\<close>, an empty list or a nested model; \<^verbatim>\<open>from_dict\<close> enters
  exactly when that holds or the incoming value is a list. When \<^verbatim>\<open>from_dict_api\<close> enters
  and the existing value is no nested model, it assigns the incoming value as it is, a
  list included, with no look at the field types.
\<close>

theorem eligibility_relation:
  "(overwrite_eligible_api inner_item \<longleftrightarrow>
      inner_item = VNone \<or> inner_item = VList [] \<or> isinstance_TerraDataModel inner_item) \<and>
   (overwrite_eligible inner_item v \<longleftrightarrow> overwrite_eligible_api inner_item \<or> isinstance_list v) \<and>
   (getattr_safe data_model k safe = Inr inner_item \<and> overwrite_eligible_api inner_item \<and>
      \<not> isinstance_TerraDataModel inner_item \<longrightarrow>
      from_dict_api_step E cls safe data_model k v = Inr (AList.update k v data_model))"
  by (cases inner_item)
    (auto simp: overwrite_eligible_def overwrite_eligible_api_def in_None_or_empty_def
      from_dict_api_step_def decode_nested_api_def)

theorem eligibility_relation_witness:
  "overwrite_eligible VNone (VInt 1) \<and> overwrite_eligible_api VNone \<and>
   from_dict_api_step demo_env ''Outer'' False (new_instance demo_env ''Outer'') ''name'' (VList [VInt 1])
     = Inr (AList.update ''name'' (VList [VInt 1]) (new_instance demo_env ''Outer''))"
  using eligibility_relation [where inner_item = VNone and v = "VList [VInt 1]"
      and data_model = "new_instance demo_env ''Outer''" and k = "''name''" and safe = False
      and E = demo_env and cls = "''Outer''"]
    eligibility_relation [where inner_item = VNone and v = "VInt 1"
      and data_model = "new_instance demo_env ''Outer''" and k = "''name''" and safe = False]
  by (simp add: getattr_safe_def getattr_opt_def demo_env_def)

section \<open>Lists whose declared element type is no model\<close>

text \<open>
  Claim C4, as stated, is false. Whether a non-empty list is passed through is decided by
  the first dotted segment of the declared element type name alone (line 125); a name
  that starts with \<^verbatim>\<open>terra\<close> is located and called (line 134) whether or not it
  resolves. The field \<^verbatim>\<open>missing\<close> of \<^verbatim>\<open>Outer\<close> is declared
  \<^verbatim>\<open>typing.List[models.Missing]\<close>, which no class answers to, and decoding a non-empty
  list into it raises a \<^verbatim>\<open>TypeError\<close>.
\<close>

theorem unresolved_terra_name_raises:
  "current_field_name demo_env ''Outer'' ''missing'' = Inr ''terra.models.Missing'' \<and>
   locate demo_env ''terra.models.Missing'' = None \<and>
   from_dict demo_env ''Outer'' (VDict [(''missing'', VList [VDict []])]) False = Inl TypeError"
  by (simp add: from_dict.simps from_dict_loop_source
      from_dict_step_def getattr_safe_def getattr_opt_def demo_env_def overwrite_eligible_def
      decode_nested_def resolve_list_def current_field_name_def piece_def is_terra_name_def)

text \<open>
  Claim C4, amended. In a strict decode of a key whose incoming value is a non-empty list
  and whose existing value is no nested model: if the element type name extracted from
  the field types (after \<^verbatim>\<open>models\<close> has been prefixed with \<^verbatim>\<open>terra.\<close>) does not have
  \<^verbatim>\<open>terra\<close> as its first dotted segment, the iteration raises nothing and assigns the
  list unchanged.
\<close>

theorem list_pass_through:
  assumes "getattr_safe data_model k safe = Inr inner_item"
    and "\<not> isinstance_TerraDataModel inner_item"
    and "current_field_name E cls k = Inr n"
    and "\<not> is_terra_name n"
  shows "from_dict_step E cls safe data_model k (VList (x # xs)) =
         Inr (AList.update k (VList (x # xs)) data_model)"
  using assms
  by (cases inner_item)
    (simp_all add: from_dict_step_def overwrite_eligible_def decode_nested_def resolve_list_def)

theorem list_pass_through_witness:
  "from_dict_step demo_env ''Outer'' False (new_instance demo_env ''Outer'') ''tags''
     (VList [VStr ''a'', VStr ''b'']) =
   Inr (AList.update ''tags'' (VList [VStr ''a'', VStr ''b'']) (new_instance demo_env ''Outer'')) \<and>
   current_field_name demo_env ''Outer'' ''tags'' = Inr ''str'' \<and> \<not> is_terra_name ''str''"
  using list_pass_through [where data_model = "new_instance demo_env ''Outer''"
      and k = "''tags''" and safe = False and inner_item = "VList [VStr ''new'']"
      and E = demo_env and cls = "''Outer''" and n = "''str''" and x = "VStr ''a''"
      and xs = "[VStr ''b'']"]
  by (simp add: getattr_safe_def getattr_opt_def demo_env_def current_field_name_def piece_def
      is_terra_name_def)

section \<open>Nested models\<close>

text \<open>
  Claim C8, as stated, is false. \<^verbatim>\<open>from_dict\<close> is a class method, so
  \<^verbatim>\<open>inner_item.from_dict(v)\<close> starts from \<^verbatim>\<open>cls()\<close> of the instance's class and not from
  the instance. The constructor of \<^verbatim>\<open>Outer\<close> builds its \<^verbatim>\<open>inner\<close> with \<^verbatim>\<open>a = 5\<close>;
  decoding \<^verbatim>\<open>{"inner": {"b": 1}}\<close> leaves \<^verbatim>\<open>inner.a\<close> at \<^verbatim>\<open>None\<close>, the default of
  \<^verbatim>\<open>Inner\<close>, although \<^verbatim>\<open>a\<close> is absent from the incoming mapping.
\<close>

theorem nested_instance_replaced:
  "map_of (new_instance demo_env ''Outer'') ''inner'' =
     Some (VModel ''Inner'' [(''a'', VInt 5), (''b'', VNone)]) \<and>
   from_dict demo_env ''Outer'' (VDict [(''inner'', VDict [(''b'', VInt 1)])]) False =
     Inr (VModel ''Outer''
       [(''name'', VNone), (''n'', VInt 3),
        (''inner'', VModel ''Inner'' [(''a'', VNone), (''b'', VInt 1)]),
        (''parts'', VList []), (''tags'', VList [VStr ''new'']), (''missing'', VList [])])"
  by (simp add: from_dict.simps from_dict_loop_source
      from_dict_step_def getattr_safe_def getattr_opt_def demo_env_def overwrite_eligible_def
      decode_nested_def resolve_list_def in_None_or_empty_def)

text \<open>
  Claim C8, amended. In a strict decode, when the existing attribute value is a nested
  model of class \<open>c\<close>, the incoming value is decoded by \<^verbatim>\<open>from_dict\<close> of class \<open>c\<close>
  (with \<^verbatim>\<open>safe\<close> false) into a fresh instance of \<open>c\<close>, which replaces the existing one;
  a field that is absent from the incoming mapping holds the value that the constructor
  of \<open>c\<close> gives it.
\<close>

theorem nested_decoded_into_fresh:
  assumes "getattr_opt data_model k = Some (VModel c a)"
  shows "from_dict_step E cls safe data_model k v =
           (case from_dict E c v False of
              Inl e \<Rightarrow> Inl e
            | Inr m \<Rightarrow> Inr (AList.update k m data_model)) \<and>
         (\<forall>d m. from_dict E c (VDict d) False = Inr m \<longrightarrow>
            (\<exists>attrs. m = VModel c attrs \<and>
               (\<forall>f. f \<notin> fst ` set d \<longrightarrow>
                  getattr_opt attrs f = getattr_opt (new_instance E c) f)))"
proof -
  have "from_dict_step E cls safe data_model k v =
           (case from_dict E c v False of
              Inl e \<Rightarrow> Inl e
            | Inr m \<Rightarrow> Inr (AList.update k m data_model))"
    using assms
    by (auto simp: from_dict_step_def getattr_safe_def overwrite_eligible_def decode_nested_def
        resolve_list_model split: sum.splits dest!: from_dict_is_model)
  moreover have "\<exists>attrs. m = VModel c attrs \<and>
      (\<forall>f. f \<notin> fst ` set d \<longrightarrow> getattr_opt attrs f = getattr_opt (new_instance E c) f)"
    if "from_dict E c (VDict d) False = Inr m" for d m
    using that by (intro from_dict_loop_frame) (simp add: from_dict.simps)
  ultimately show ?thesis by blast
qed

theorem nested_decoded_into_fresh_witness:
  "from_dict_step demo_env ''Outer'' False (new_instance demo_env ''Outer'') ''inner''
      (VDict [(''b'', VInt 1)]) =
     Inr (AList.update ''inner'' (VModel ''Inner'' [(''a'', VNone), (''b'', VInt 1)])
            (new_instance demo_env ''Outer'')) \<and>
   getattr_opt [(''a'', VNone), (''b'', VInt 1)] ''a'' = getattr_opt (new_instance demo_env ''Inner'') ''a''"
  using nested_decoded_into_fresh [where data_model = "new_instance demo_env ''Outer''"
      and k = "''inner''" and c = "''Inner''" and a = "[(''a'', VInt 5), (''b'', VNone)]"
      and E = demo_env and cls = "''Outer''" and safe = False and v = "VDict [(''b'', VInt 1)]"]
  by (simp add: from_dict.simps from_dict_loop_source
      from_dict_step_def getattr_safe_def getattr_opt_def demo_env_def overwrite_eligible_def
      decode_nested_def resolve_list_def in_None_or_empty_def)

section \<open>Unknown keys\<close>

lemma from_dict_loop_unknown_key:
  assumes "getattr_opt dm k' = None" and "k' \<notin> fst ` set pre"
  shows "from_dict_loop E cls False dm (pre @ (k', v') # post) =
         (case from_dict_loop E cls False dm pre of Inl e \<Rightarrow> Inl e | Inr r \<Rightarrow> Inl AttributeError)"
  using assms
proof (induction pre arbitrary: dm)
  case Nil
  then show ?case by (simp add: from_dict_loop_source from_dict_step_def getattr_safe_def)
next
  case (Cons kv pre)
  obtain k v where kv: "kv = (k, v)" by (cases kv)
  show ?case
  proof (cases "from_dict_step E cls False dm k v")
    case (Inl e)
    then show ?thesis by (simp add: kv from_dict_loop_source)
  next
    case (Inr dm')
    with Cons.prems kv have "getattr_opt dm' k' = None"
      by (simp add: from_dict_step_other)
    with Cons.IH [of dm'] Cons.prems(2) Inr show ?thesis
      by (simp add: kv from_dict_loop_source)
  qed
qed

lemma from_dict_api_loop_unknown_key:
  assumes "getattr_opt dm k' = None" and "k' \<notin> fst ` set pre"
  shows "from_dict_api_loop E cls False dm (pre @ (k', v') # post) =
         (case from_dict_api_loop E cls False dm pre of Inl e \<Rightarrow> Inl e | Inr r \<Rightarrow> Inl AttributeError)"
  using assms
proof (induction pre arbitrary: dm)
  case Nil
  then show ?case by (simp add: from_dict_api_loop_source from_dict_api_step_def getattr_safe_def)
next
  case (Cons kv pre)
  obtain k v where kv: "kv = (k, v)" by (cases kv)
  show ?case
  proof (cases "from_dict_api_step E cls False dm k v")
    case (Inl e)
    then show ?thesis by (simp add: kv from_dict_api_loop_source)
  next
    case (Inr dm')
    with Cons.prems kv have "getattr_opt dm' k' = None"
      by (simp add: from_dict_api_step_other)
    with Cons.IH [of dm'] Cons.prems(2) Inr show ?thesis
      by (simp add: kv from_dict_api_loop_source)
  qed
qed

lemma from_dict_items_raises:
  assumes "locate E n = Some c" and "from_dict E c x False = Inl e"
    and "from_dict_items E n ys = Inr rs"
  shows "from_dict_items E n (ys @ x # xs) = Inl e"
  using assms(3)
proof (induction ys arbitrary: rs)
  case Nil
  with assms(1,2) show ?case by simp
next
  case (Cons y ys)
  then show ?case by (auto split: option.splits sum.splits)
qed

text \<open>The error a call raised, or \<open>e\<close> if it returned.\<close>

definition raised :: "error + 'a \<Rightarrow> error \<Rightarrow> error" where
  "raised r e = (case r of Inl e' \<Rightarrow> e' | Inr x \<Rightarrow> e)"

text \<open>
  Claim C10. Let \<open>k'\<close> be no attribute of class \<open>c\<close>, and let a mapping hold \<open>k'\<close> after
  the entries \<open>pre\<close>. With \<^verbatim>\<open>safe=True\<close> in the outer call, decoding that mapping into
  an attribute that holds a nested model of class \<open>c\<close> (by \<^verbatim>\<open>from_dict\<close> and by
  \<^verbatim>\<open>from_dict_api\<close>), or as an element of a list whose declared element type is \<open>c\<close>
  (the elements \<open>ys\<close> before it being decoded without error), raises: the error that
  decoding \<open>pre\<close> alone with \<^verbatim>\<open>safe=False\<close> raises, and \<^verbatim>\<open>AttributeError\<close> if that
  raises none. The inner calls run with \<^verbatim>\<open>safe=False\<close>.
\<close>

theorem safe_not_propagated:
  assumes "getattr_opt (new_instance E c) k' = None" and "k' \<notin> fst ` set pre"
  shows "(getattr_opt data_model k = Some (VModel c a) \<longrightarrow>
            from_dict_step E cls True data_model k (VDict (pre @ (k', v') # post)) =
              Inl (raised (from_dict E c (VDict pre) False) AttributeError) \<and>
            from_dict_api_step E cls True data_model k (VDict (pre @ (k', v') # post)) =
              Inl (raised (from_dict_api E c (VDict pre) False) AttributeError)) \<and>
         (getattr_safe data_model k True = Inr inner_item \<and>
          \<not> isinstance_TerraDataModel inner_item \<and>
          current_field_name E cls k = Inr n \<and> is_terra_name n \<and> locate E n = Some c \<and>
          from_dict_items E n ys = Inr rs \<longrightarrow>
            from_dict_step E cls True data_model k
                (VList (ys @ VDict (pre @ (k', v') # post) # xs)) =
              Inl (raised (from_dict E c (VDict pre) False) AttributeError))"
proof -
  have 1: "from_dict E c (VDict (pre @ (k', v') # post)) False =
        Inl (raised (from_dict E c (VDict pre) False) AttributeError)"
    using assms
    by (simp add: from_dict.simps from_dict_loop_unknown_key raised_def split: sum.splits)
  have 2: "from_dict_api E c (VDict (pre @ (k', v') # post)) False =
        Inl (raised (from_dict_api E c (VDict pre) False) AttributeError)"
    using assms
    by (simp add: from_dict_api.simps from_dict_api_loop_unknown_key raised_def
        split: sum.splits)
  have 3: "from_dict_step E cls True data_model k
                (VList (ys @ VDict (pre @ (k', v') # post) # xs)) =
              Inl (raised (from_dict E c (VDict pre) False) AttributeError)"
    if found: "getattr_safe data_model k True = Inr inner_item"
      and nm: "\<not> isinstance_TerraDataModel inner_item"
      and n: "current_field_name E cls k = Inr n" "is_terra_name n"
      and c: "locate E n = Some c" and ys: "from_dict_items E n ys = Inr rs"
  proof -
    have "from_dict_items E n (ys @ VDict (pre @ (k', v') # post) # xs) =
        Inl (raised (from_dict E c (VDict pre) False) AttributeError)"
      using c 1 ys by (rule from_dict_items_raises)
    moreover obtain z zs where "ys @ VDict (pre @ (k', v') # post) # xs = z # zs"
      by (cases ys) auto
    ultimately show ?thesis
      using found nm n by (simp add: from_dict_step_def overwrite_eligible_def)
  qed
  show ?thesis
    using 3
    by (simp add: 1 2 from_dict_step_def from_dict_api_step_def getattr_safe_def
        overwrite_eligible_def overwrite_eligible_api_def)
qed

theorem safe_not_propagated_witness:
  "from_dict demo_env ''Outer''
     (VDict [(''inner'', VDict [(''b'', VInt 1), (''zzz'', VInt 2)])]) True
     = Inl AttributeError \<and>
   from_dict_api demo_env ''Outer''
     (VDict [(''inner'', VDict [(''b'', VInt 1), (''zzz'', VInt 2)])]) True
     = Inl AttributeError \<and>
   from_dict demo_env ''Outer''
     (VDict [(''parts'', VList [VDict [(''a'', VInt 0)],
                                VDict [(''b'', VInt 1), (''zzz'', VInt 2)]])]) True
     = Inl AttributeError \<and>
   from_dict demo_env ''Outer'' (VDict [(''zzz'', VInt 2)]) True
     = Inr (VModel ''Outer'' (new_instance demo_env ''Outer''))"
  using safe_not_propagated [where E = demo_env and c = "''Inner''" and k' = "''zzz''"
      and pre = "[(''b'', VInt 1)]" and data_model = "new_instance demo_env ''Outer''"
      and k = "''inner''" and a = "[(''a'', VInt 5), (''b'', VNone)]" and cls = "''Outer''"
      and v' = "VInt 2" and post = "[]"]
    safe_not_propagated [where E = demo_env and c = "''Inner''" and k' = "''zzz''"
      and pre = "[(''b'', VInt 1)]" and data_model = "new_instance demo_env ''Outer''"
      and k = "''parts''" and cls = "''Outer''" and inner_item = "VList []"
      and v' = "VInt 2" and post = "[]" and n = "''terra.models.Inner''" and xs = "[]"
      and ys = "[VDict [(''a'', VInt 0)]]"
      and rs = "[VModel ''Inner'' [(''a'', VInt 0), (''b'', VNone)]]"]
  by (simp add: from_dict.simps from_dict_api.simps from_dict_loop_source
      from_dict_api_loop_source from_dict_step_def from_dict_api_step_def getattr_safe_def
      getattr_opt_def demo_env_def overwrite_eligible_def overwrite_eligible_api_def
      in_None_or_empty_def
      current_field_name_def piece_def is_terra_name_def raised_def dir_TerraDataModel_def)

text \<open>
  What the three methods do with a key that is no attribute of the instance. With
  \<^verbatim>\<open>safe=False\<close> each raises \<^verbatim>\<open>AttributeError\<close>. With \<^verbatim>\<open>safe=True\<close>,
  \<^verbatim>\<open>from_dict_api\<close> and \<^verbatim>\<open>populate_from_dict\<close> skip the key, and \<^verbatim>\<open>from_dict\<close> skips it
  unless its value is a list.
\<close>

lemma unknown_key_safe_flag:
  assumes "getattr_opt data_model k = None"
  shows "from_dict_step E cls False data_model k v = Inl AttributeError"
    and "from_dict_api_step E cls False data_model k v = Inl AttributeError"
    and "populate_loop False data_model ((k, v) # rest) = Inl AttributeError"
    and "from_dict_api_step E cls True data_model k v = Inr data_model"
    and "populate_loop True data_model ((k, v) # rest) = populate_loop True data_model rest"
    and "\<not> isinstance_list v \<Longrightarrow> from_dict_step E cls True data_model k v = Inr data_model"
    and "map_of (field_types E cls) k = None \<Longrightarrow>
           from_dict_step E cls True data_model k (VList (x # xs)) = Inl KeyError"
    and "from_dict_step E cls True data_model k (VList []) = Inr (data_model @ [(k, VList [])])"
proof -
  from assms have m: "map_of data_model k = None"
    by (auto simp: getattr_opt_def split: option.splits)
  then have "k \<notin> fst ` set data_model" by (simp add: map_of_eq_None_iff)
  then have u: "AList.update k w data_model = data_model @ [(k, w)]" for w
    by (induction data_model) auto
  show "from_dict_step E cls False data_model k v = Inl AttributeError"
    "from_dict_api_step E cls False data_model k v = Inl AttributeError"
    "populate_loop False data_model ((k, v) # rest) = Inl AttributeError"
    "from_dict_api_step E cls True data_model k v = Inr data_model"
    "populate_loop True data_model ((k, v) # rest) = populate_loop True data_model rest"
    "\<not> isinstance_list v \<Longrightarrow> from_dict_step E cls True data_model k v = Inr data_model"
    "map_of (field_types E cls) k = None \<Longrightarrow>
           from_dict_step E cls True data_model k (VList (x # xs)) = Inl KeyError"
    "from_dict_step E cls True data_model k (VList []) = Inr (data_model @ [(k, VList [])])"
    using assms u
    by (simp_all add: from_dict_step_def from_dict_api_step_def getattr_safe_def
        overwrite_eligible_def overwrite_eligible_api_def in_None_or_empty_def
        current_field_name_def)
qed

text \<open>
  Claim C2 fails on the code for \<^verbatim>\<open>from_dict\<close>: with \<^verbatim>\<open>safe=True\<close> a key that is no
  attribute still enters the assignment branch when its value is a list. A non-empty
  list then raises \<^verbatim>\<open>KeyError\<close> at \<^verbatim>\<open>z[k]\<close> (line 118), and an empty list is set as a
  new attribute of the instance instead of being skipped.
\<close>

theorem safe_unknown_list_key_raises:
  "getattr_opt (new_instance demo_env ''Outer'') ''zzz'' = None \<and>
   from_dict demo_env ''Outer'' (VDict [(''zzz'', VList [VInt 1])]) True = Inl KeyError \<and>
   from_dict demo_env ''Outer'' (VDict [(''zzz'', VList [])]) True =
     Inr (VModel ''Outer'' (new_instance demo_env ''Outer'' @ [(''zzz'', VList [])]))"
  by (simp add: from_dict.simps from_dict_loop_source from_dict_step_def getattr_safe_def
      getattr_opt_def demo_env_def overwrite_eligible_def decode_nested_def resolve_list_def
      in_None_or_empty_def current_field_name_def dir_TerraDataModel_def)

section \<open>Encoding list attributes\<close>

text \<open>The statements of \<^verbatim>\<open>to_dict\<close>'s loop body as the source chains them.\<close>

lemma encode_attr_source:
  "encode_attr attr_val =
     (case attr_val of
        VEnum n \<Rightarrow> Inr (VInt n)
      | _ \<Rightarrow>
          if in_PRIMITIVES attr_val then Inr attr_val
          else (case attr_val of
                  VList xs \<Rightarrow>
                    if (xs \<noteq> [] \<and> in_PRIMITIVES (hd xs)) \<or> xs = [] then Inr attr_val
                    else (case to_dict_items xs of
                            Inl e \<Rightarrow> Inl e
                          | Inr ys \<Rightarrow> Inr (VList ys))
                | _ \<Rightarrow> (case to_dict attr_val of Inl e \<Rightarrow> Inl e | Inr d \<Rightarrow> Inr (VDict d))))"
proof (cases attr_val)
  case (VList xs)
  then show ?thesis by (cases xs) simp_all
qed simp_all

lemma to_dict_loop_lookup:
  assumes "to_dict_loop attrs = Inr out" and "distinct (map fst attrs)"
    and "map_of attrs a = Some v" and "is_data_attr a"
  shows "\<exists>y. encode_attr v = Inr y \<and> map_of out a = Some y"
  using assms
proof (induction attrs arbitrary: out)
  case Nil
  then show ?case by simp
next
  case (Cons p attrs)
  obtain attr attr_val where p: "p = (attr, attr_val)" by (cases p)
  show ?case
  proof (cases "attr = a")
    case True
    with Cons.prems p show ?thesis by (auto split: sum.splits)
  next
    case False
    with Cons.prems p show ?thesis
      by (auto split: sum.splits if_splits dest: Cons.IH)
  qed
qed

lemma to_dict_items_all2:
  "to_dict_items xs = Inr ys \<Longrightarrow> list_all2 (\<lambda>x y. \<exists>d. to_dict x = Inr d \<and> y = VDict d) xs ys"
  by (induction xs arbitrary: ys) (auto split: sum.splits)

text \<open>
  Claim C5. Let \<^verbatim>\<open>to_dict\<close> return \<open>out\<close> for an instance whose enumerated attribute
  \<open>a\<close> holds the list \<open>xs\<close>. If \<open>xs\<close> is empty or the type of its first element is in
  \<^verbatim>\<open>PRIMITIVES\<close>, then \<open>out\<close> holds \<open>xs\<close> itself at \<open>a\<close>, whatever the later elements
  are. Otherwise \<open>out\<close> holds at \<open>a\<close> a list of the same length whose elements are, one
  by one, the \<^verbatim>\<open>to_dict\<close> of the elements of \<open>xs\<close>.
\<close>

theorem list_attr_encoding:
  assumes "to_dict (VModel c attrs) = Inr out" and "distinct (map fst attrs)"
    and "map_of attrs a = Some (VList xs)" and "is_data_attr a"
  shows "(xs = [] \<or> in_PRIMITIVES (hd xs) \<longrightarrow> map_of out a = Some (VList xs)) \<and>
         (xs \<noteq> [] \<and> \<not> in_PRIMITIVES (hd xs) \<longrightarrow>
            (\<exists>ys. map_of out a = Some (VList ys) \<and>
               list_all2 (\<lambda>x y. \<exists>d. to_dict x = Inr d \<and> y = VDict d) xs ys))"
proof -
  from assms obtain y where y: "encode_attr (VList xs) = Inr y" "map_of out a = Some y"
    using to_dict_loop_lookup [of attrs out a "VList xs"] by auto
  show ?thesis
  proof (cases xs)
    case Nil
    with y show ?thesis by simp
  next
    case (Cons x xs')
    with y show ?thesis
      by (auto split: if_splits sum.splits dest: to_dict_items_all2)
  qed
qed

theorem list_attr_encoding_witness:
  "to_dict (VModel ''Outer''
      [(''mixed'', VList [VInt 1, VModel ''Inner'' [(''a'', VInt 2)]]),
       (''parts'', VList [VModel ''Inner'' [(''a'', VInt 2)], VModel ''Inner'' [(''a'', VEnum 3)]]),
       (''none'', VList [])]) =
   Inr [(''mixed'', VList [VInt 1, VModel ''Inner'' [(''a'', VInt 2)]]),
        (''parts'', VList [VDict [(''a'', VInt 2)], VDict [(''a'', VInt 3)]]),
        (''none'', VList [])] \<and>
   list_all2 (\<lambda>x y. \<exists>d. to_dict x = Inr d \<and> y = VDict d)
     [VModel ''Inner'' [(''a'', VInt 2)], VModel ''Inner'' [(''a'', VEnum 3)]]
     [VDict [(''a'', VInt 2)], VDict [(''a'', VInt 3)]]"
  using list_attr_encoding [where c = "''Outer''" and a = "''parts''"
      and attrs = "[(''mixed'', VList [VInt 1, VModel ''Inner'' [(''a'', VInt 2)]]),
       (''parts'', VList [VModel ''Inner'' [(''a'', VInt 2)], VModel ''Inner'' [(''a'', VEnum 3)]]),
       (''none'', VList [])]"
      and xs = "[VModel ''Inner'' [(''a'', VInt 2)], VModel ''Inner'' [(''a'', VEnum 3)]]"
      and out = "[(''mixed'', VList [VInt 1, VModel ''Inner'' [(''a'', VInt 2)]]),
        (''parts'', VList [VDict [(''a'', VInt 2)], VDict [(''a'', VInt 3)]]),
        (''none'', VList [])]"]
    list_attr_encoding [where c = "''Outer''" and a = "''mixed''"
      and attrs = "[(''mixed'', VList [VInt 1, VModel ''Inner'' [(''a'', VInt 2)]]),
       (''parts'', VList [VModel ''Inner'' [(''a'', VInt 2)], VModel ''Inner'' [(''a'', VEnum 3)]]),
       (''none'', VList [])]"
      and xs = "[VInt 1, VModel ''Inner'' [(''a'', VInt 2)]]"
      and out = "[(''mixed'', VList [VInt 1, VModel ''Inner'' [(''a'', VInt 2)]]),
        (''parts'', VList [VDict [(''a'', VInt 2)], VDict [(''a'', VInt 3)]]),
        (''none'', VList [])]"]
  by (simp add: is_data_attr_def dir_TerraDataModel_def startswith_underscore_def)

section \<open>Merging into the attributes that are \<^verbatim>\<open>None\<close>\<close>

lemma hasattr_update: "hasattr attrs k \<Longrightarrow> hasattr (AList.update k v attrs) k' = hasattr attrs k'"
  by (cases "k' = k") (auto simp: hasattr_def getattr_opt_def update_conv' split: option.splits)

text \<open>
  What the merge is to leave in one attribute, in the words of the specification: an
  attribute whose current value is \<^verbatim>\<open>None\<close> receives the incoming value for its name,
  if the mapping has one; every other attribute keeps its value.
\<close>

definition merged :: "(string \<times> val) list \<Rightarrow> string \<times> val \<Rightarrow> string \<times> val" where
  "merged d = (\<lambda>(a, cur).
     (a, if cur = VNone then (case map_of d a of Some v \<Rightarrow> v | None \<Rightarrow> cur) else cur))"

lemma map_merged_update:
  assumes "distinct (map fst attrs)" and "map_of attrs k = Some VNone" and "map_of d k = None"
  shows "map (merged d) (AList.update k v attrs) = map (merged ((k, v) # d)) attrs"
  using assms
proof (induction attrs)
  case Nil
  then show ?case by simp
next
  case (Cons p attrs)
  obtain a cur where p: "p = (a, cur)" by (cases p)
  show ?case
  proof (cases "a = k")
    case True
    with Cons.prems p have cur: "cur = VNone" by simp
    from Cons.prems(1) True p have "\<forall>x \<in> set attrs. fst x \<noteq> k" by auto
    then have "map (merged ((k, v) # d)) attrs = map (merged d) attrs"
      by (intro map_cong) (auto simp: merged_def)
    with True p cur Cons.prems(3) show ?thesis
      by (simp add: merged_def)
  next
    case False
    with Cons p show ?thesis by (simp add: merged_def)
  qed
qed

lemma map_merged_skip:
  assumes "\<forall>cur. (k, cur) \<in> set attrs \<longrightarrow> cur \<noteq> VNone"
  shows "map (merged ((k, v) # d)) attrs = map (merged d) attrs"
  using assms by (intro map_cong) (auto simp: merged_def)

lemma populate_loop_closed:
  assumes "distinct (map fst attrs)" and "distinct (map fst d)"
  shows "populate_loop safe attrs d =
     (if safe \<or> (\<forall>k \<in> fst ` set d. hasattr attrs k)
      then Inr (map (merged d) attrs) else Inl AttributeError)"
  using assms
proof (induction d arbitrary: attrs)
  case Nil
  have "map (merged []) attrs = attrs"
    by (induction attrs) (auto simp: merged_def)
  then show ?case by simp
next
  case (Cons kv d)
  obtain k v where kv: "kv = (k, v)" by (cases kv)
  from Cons.prems(2) kv have dk: "map_of d k = None" and dd: "distinct (map fst d)"
    by (auto simp: map_of_eq_None_iff)
  show ?case
  proof (cases "getattr_opt attrs k")
    case None
    then have "map_of attrs k = None" by (auto simp: getattr_opt_def split: option.splits)
    then have "\<forall>cur. (k, cur) \<in> set attrs \<longrightarrow> cur \<noteq> VNone"
      by (auto simp: map_of_eq_None_iff image_iff)
    then have m: "map (merged ((k, v) # d)) attrs = map (merged d) attrs"
      by (rule map_merged_skip)
    from None Cons.IH [OF Cons.prems(1) dd] show ?thesis
      by (auto simp: kv getattr_safe_def m hasattr_def)
  next
    case (Some cur)
    show ?thesis
    proof (cases "cur = VNone")
      case True
      with Some have mk: "map_of attrs k = Some VNone"
        by (auto simp: getattr_opt_def split: option.splits if_splits)
      have d': "distinct (map fst (AList.update k v attrs))"
        using Cons.prems(1) by (simp add: distinct_update)
      from Some have h: "hasattr attrs k" by (simp add: hasattr_def)
      from Some True Cons.IH [OF d' dd] show ?thesis
        by (simp add: kv getattr_safe_def h hasattr_update [OF h]
            map_merged_update [OF Cons.prems(1) mk dk])
    next
      case False
      have "\<forall>c. (k, c) \<in> set attrs \<longrightarrow> c \<noteq> VNone"
      proof (intro allI impI)
        fix c assume "(k, c) \<in> set attrs"
        with Cons.prems(1) have "map_of attrs k = Some c" by simp
        with Some False show "c \<noteq> VNone" by (simp add: getattr_opt_def)
      qed
      then have m: "map (merged ((k, v) # d)) attrs = map (merged d) attrs"
        by (rule map_merged_skip)
      from Some have h: "hasattr attrs k" by (simp add: hasattr_def)
      from Some False Cons.IH [OF Cons.prems(1) dd] show ?thesis
        by (simp add: kv getattr_safe_def m h)
    qed
  qed
qed

text \<open>
  Claim C6. For an instance and a mapping (each with one entry per name),
  \<^verbatim>\<open>populate_from_dict\<close> returns the instance, of the same class and with the same
  attribute names, in which exactly the attributes that were \<^verbatim>\<open>None\<close> and have an
  entry in the mapping are set, to the incoming value as it is; an empty list, zero,
  false and every other value stay. It raises only when \<^verbatim>\<open>safe\<close> is false and some key
  of the mapping is no attribute of the instance.
\<close>

theorem populate_only_none:
  assumes "distinct (map fst attrs)" and "distinct (map fst d)"
  shows "populate_from_dict (VModel c attrs) (VDict d) safe =
     (if safe \<or> (\<forall>k \<in> fst ` set d. hasattr attrs k)
      then Inr (VModel c (map (merged d) attrs)) else Inl AttributeError)"
  using populate_loop_closed [OF assms, of safe] by simp

theorem populate_only_none_witness:
  "populate_from_dict
     (VModel ''M'' [(''x'', VNone), (''y'', VList []), (''z'', VInt 0), (''w'', VBool False)])
     (VDict [(''x'', VInt 5), (''y'', VList [VInt 1, VInt 2]), (''z'', VInt 7),
             (''w'', VBool True)]) False =
   Inr (VModel ''M'' [(''x'', VInt 5), (''y'', VList []), (''z'', VInt 0), (''w'', VBool False)])"
  using populate_only_none [where attrs = "[(''x'', VNone), (''y'', VList []), (''z'', VInt 0), (''w'', VBool False)]"
      and d = "[(''x'', VInt 5), (''y'', VList [VInt 1, VInt 2]), (''z'', VInt 7), (''w'', VBool True)]"
      and c = "''M''" and safe = False]
  by (simp add: hasattr_def getattr_opt_def merged_def)

section \<open>Encoding and decoding again\<close>

text \<open>
  Claim C1, as stated, is false: whether an encoded field is decoded back depends on what
  the constructor of the class puts into the field, which the claim does not restrict.
  \<^verbatim>\<open>Counter\<close> declares \<^verbatim>\<open>count: int = 0\<close>. The instance with \<^verbatim>\<open>count = 5\<close> is fully
  populated and encodes to \<^verbatim>\<open>{"count": 5}\<close>; decoding that skips the key, since the
  existing \<^verbatim>\<open>0\<close> is neither \<^verbatim>\<open>None\<close> nor \<^verbatim>\<open>[]\<close> nor a model and \<^verbatim>\<open>5\<close> is no list
  (lines 100 to 104), and returns the instance with \<^verbatim>\<open>count = 0\<close>.
\<close>

theorem round_trip_fails_on_default:
  "to_dict (VModel ''Counter'' [(''count'', VInt 5)]) = Inr [(''count'', VInt 5)] \<and>
   from_dict demo_env ''Counter'' (VDict [(''count'', VInt 5)]) False =
     Inr (VModel ''Counter'' [(''count'', VInt 0)]) \<and>
   new_instance demo_env ''Counter'' = [(''count'', VInt 0)]"
  by (simp add: from_dict.simps from_dict_loop_source from_dict_step_def getattr_safe_def
      getattr_opt_def demo_env_def overwrite_eligible_def in_None_or_empty_def
      is_data_attr_def dir_TerraDataModel_def startswith_underscore_def)

text \<open>
  An \<^verbatim>\<open>IntEnum\<close> member is encoded as its integer and decoded as that integer; Python's
  \<^verbatim>\<open>==\<close> does not tell the two apart. \<open>enums_as_ints\<close> is the instance in which every
  enumerated field that holds an enum member (in the instance itself, in a nested model
  or in an element of a list of models) holds the member's integer instead;
  \<open>enum_free\<close> says that there is no such field.
\<close>

fun enums_as_ints :: "val \<Rightarrow> val"
  and enums_as_ints_attr :: "val \<Rightarrow> val"
  and enums_as_ints_attrs :: "(string \<times> val) list \<Rightarrow> (string \<times> val) list"
  and enums_as_ints_items :: "val list \<Rightarrow> val list"
where
  "enums_as_ints (VModel c attrs) = VModel c (enums_as_ints_attrs attrs)"
| "enums_as_ints v = v"
| "enums_as_ints_attr (VEnum n) = VInt n"
| "enums_as_ints_attr (VList (x # xs)) =
     (if in_PRIMITIVES x then VList (x # xs) else VList (enums_as_ints_items (x # xs)))"
| "enums_as_ints_attr (VModel c attrs) = enums_as_ints (VModel c attrs)"
| "enums_as_ints_attr v = v"
| "enums_as_ints_attrs [] = []"
| "enums_as_ints_attrs ((a, v) # rest) =
     (a, if is_data_attr a then enums_as_ints_attr v else v) # enums_as_ints_attrs rest"
| "enums_as_ints_items [] = []"
| "enums_as_ints_items (x # xs) = enums_as_ints x # enums_as_ints_items xs"

fun enum_free :: "val \<Rightarrow> bool"
  and enum_free_attr :: "val \<Rightarrow> bool"
  and enum_free_attrs :: "(string \<times> val) list \<Rightarrow> bool"
  and enum_free_items :: "val list \<Rightarrow> bool"
where
  "enum_free (VModel c attrs) = enum_free_attrs attrs"
| "enum_free v = True"
| "enum_free_attr (VEnum n) = False"
| "enum_free_attr (VList (x # xs)) = (in_PRIMITIVES x \<or> enum_free_items (x # xs))"
| "enum_free_attr (VModel c attrs) = enum_free (VModel c attrs)"
| "enum_free_attr v = True"
| "enum_free_attrs [] = True"
| "enum_free_attrs ((a, v) # rest) =
     ((is_data_attr a \<longrightarrow> enum_free_attr v) \<and> enum_free_attrs rest)"
| "enum_free_items [] = True"
| "enum_free_items (x # xs) = (enum_free x \<and> enum_free_items xs)"

text \<open>
  The instances that the amended claim is about. \<open>round_trippable E inst\<close>: the instance
  has the attributes of a fresh instance of its class, each once (and listed in the same
  order); an attribute that \<^verbatim>\<open>_get_attrs\<close> does not enumerate holds what the constructor
  put there; and every enumerated attribute \<open>k\<close>, which the constructor sets to \<open>d\<close> and
  which now holds \<open>v\<close>, is \<open>field_round_trippable\<close>:
  \<^item> \<open>v\<close> is a nested model of class \<open>c\<close>: \<open>d\<close> is an instance of \<open>c\<close> too, and \<open>v\<close> is
    round-trippable;
  \<^item> \<open>v\<close> is the empty list: \<open>d\<close> is no nested model;
  \<^item> \<open>v\<close> is a non-empty list: \<open>d\<close> is no nested model and the field types yield an
    element type name for \<open>k\<close>. If the type of the first element is in \<^verbatim>\<open>PRIMITIVES\<close>,
    the name does not start with \<^verbatim>\<open>terra\<close>; otherwise it does, it locates a class, and
    every element is a round-trippable instance of that class;
  \<^item> \<open>v\<close> is a string, integer, boolean, float, dict, \<^verbatim>\<open>None\<close> or an enum member: \<open>d\<close>
    is \<^verbatim>\<open>None\<close> or the empty list;
  \<^item> \<open>v\<close> is no other object.
\<close>

function (sequential) round_trippable :: "env \<Rightarrow> val \<Rightarrow> bool"
  and field_round_trippable :: "env \<Rightarrow> string \<Rightarrow> string \<Rightarrow> val \<Rightarrow> val \<Rightarrow> bool"
  and fields_round_trippable ::
    "env \<Rightarrow> string \<Rightarrow> (string \<times> val) list \<Rightarrow> (string \<times> val) list \<Rightarrow> bool"
  and items_round_trippable :: "env \<Rightarrow> string \<Rightarrow> val list \<Rightarrow> bool"
where
  "round_trippable E (VModel c attrs) =
     (distinct (map fst attrs) \<and> fields_round_trippable E c (new_instance E c) attrs)"
| "round_trippable E v = False"
| "field_round_trippable E cls k d (VModel c attrs) =
     ((case d of VModel c0 a0 \<Rightarrow> c0 = c | _ \<Rightarrow> False) \<and> round_trippable E (VModel c attrs))"
| "field_round_trippable E cls k d (VList []) = (\<not> isinstance_TerraDataModel d)"
| "field_round_trippable E cls k d (VList (x # xs)) =
     (\<not> isinstance_TerraDataModel d \<and>
      (case current_field_name E cls k of
         Inl e \<Rightarrow> False
       | Inr n \<Rightarrow>
           if in_PRIMITIVES x then \<not> is_terra_name n
           else is_terra_name n \<and>
                (case locate E n of
                   None \<Rightarrow> False
                 | Some c \<Rightarrow> items_round_trippable E c (x # xs))))"
| "field_round_trippable E cls k d VOther = False"
| "field_round_trippable E cls k d v = in_None_or_empty d"
| "fields_round_trippable E cls [] [] = True"
| "fields_round_trippable E cls ((k0, d) # ds) ((k, v) # rest) =
     (k0 = k \<and> (if is_data_attr k then field_round_trippable E cls k d v else v = d) \<and>
      fields_round_trippable E cls ds rest)"
| "fields_round_trippable E cls ds attrs = False"
| "items_round_trippable E c [] = True"
| "items_round_trippable E c (x # xs) =
     ((case x of VModel c' a \<Rightarrow> c' = c | _ \<Rightarrow> False) \<and> round_trippable E x \<and>
      items_round_trippable E c xs)"
  by pat_completeness auto
termination
  by (relation "measure (\<lambda>x. case x of
      Inl (Inl (E, v)) \<Rightarrow> 2 * size v
    | Inl (Inr (E, cls, k, d, v)) \<Rightarrow> 2 * size v + 1
    | Inr (Inl (E, cls, ds, attrs)) \<Rightarrow> 2 * size_list (size_prod (\<lambda>x. 0) size) attrs
    | Inr (Inr (E, c, xs)) \<Rightarrow> 2 * size_list size xs)") simp_all

text \<open>What the proof shows of an instance, and of one field of an instance of \<open>cls\<close>.\<close>

definition decodes_back :: "env \<Rightarrow> val \<Rightarrow> bool" where
  "decodes_back E x =
     (\<exists>c attrs dd. x = VModel c attrs \<and> to_dict x = Inr dd \<and>
        (\<forall>safe. from_dict E c (VDict dd) safe = Inr (enums_as_ints x)))"

definition field_decodes_back :: "env \<Rightarrow> string \<Rightarrow> string \<Rightarrow> val \<Rightarrow> bool" where
  "field_decodes_back E cls k v =
     (\<forall>d dm safe. field_round_trippable E cls k d v \<longrightarrow> getattr_opt dm k = Some d \<longrightarrow>
        (\<exists>y. encode_attr v = Inr y \<and>
           from_dict_step E cls safe dm k y =
             Inr (AList.update k (enums_as_ints_attr v) dm)))"

lemma update_append_fresh:
  "k \<notin> fst ` set pre \<Longrightarrow> AList.update k v (pre @ (k, d) # ds) = pre @ (k, v) # ds"
  by (induction pre) auto

lemma getattr_opt_append_fresh:
  "k \<notin> fst ` set pre \<Longrightarrow> getattr_opt (pre @ (k, d) # ds) k = Some d"
  by (induction pre) (auto simp: getattr_opt_def)

lemma items_round_trip:
  assumes "items_round_trippable E c xs"
    and "\<forall>x \<in> set xs. round_trippable E x \<longrightarrow> decodes_back E x"
    and "locate E n = Some c"
  shows "\<exists>ys. to_dict_items xs = Inr ys \<and> length ys = length xs \<and>
              from_dict_items E n ys = Inr (enums_as_ints_items xs)"
  using assms(1,2)
proof (induction xs)
  case Nil
  then show ?case by simp
next
  case (Cons x xs)
  from Cons.prems obtain a where x: "x = VModel c a" and rx: "round_trippable E x"
    and rest: "items_round_trippable E c xs"
    by (cases x) auto
  from Cons.prems(2) rx have "decodes_back E x" by simp
  with x obtain dd where dd: "to_dict x = Inr dd"
    "from_dict E c (VDict dd) False = Inr (enums_as_ints x)"
    by (auto simp: decodes_back_def)
  from Cons.IH [OF rest] Cons.prems(2) obtain ys where
    ys: "to_dict_items xs = Inr ys" "length ys = length xs"
      "from_dict_items E n ys = Inr (enums_as_ints_items xs)"
    by auto
  from dd ys assms(3) show ?case by simp
qed

lemma field_round_trip:
  assumes ok: "field_round_trippable E cls k d v"
    and nested: "\<And>c a. v = VModel c a \<Longrightarrow> round_trippable E v \<Longrightarrow> decodes_back E v"
    and elems: "\<And>xs x. v = VList xs \<Longrightarrow> x \<in> set xs \<Longrightarrow> round_trippable E x \<Longrightarrow> decodes_back E x"
    and found: "getattr_opt dm k = Some d"
  shows "\<exists>y. encode_attr v = Inr y \<and>
           from_dict_step E cls safe dm k y = Inr (AList.update k (enums_as_ints_attr v) dm)"
proof (cases v)
  case (VModel c a)
  with ok obtain a0 where d: "d = VModel c a0" and rt: "round_trippable E v"
    by (cases d) auto
  from nested [OF VModel rt] VModel obtain dd where dd: "to_dict v = Inr dd"
    "from_dict E c (VDict dd) False = Inr (enums_as_ints v)"
    by (auto simp: decodes_back_def)
  with VModel d found show ?thesis
    by (simp add: from_dict_step_def getattr_safe_def overwrite_eligible_def decode_nested_def
        resolve_list_model)
next
  case (VList xs)
  from ok VList have nm: "\<not> isinstance_TerraDataModel d" by (cases xs) auto
  show ?thesis
  proof (cases xs)
    case Nil
    with VList nm found show ?thesis
      by (cases d)
        (simp_all add: from_dict_step_def getattr_safe_def overwrite_eligible_def
          decode_nested_def resolve_list_def)
  next
    case (Cons x xs')
    with ok VList obtain n where n: "current_field_name E cls k = Inr n"
      by (auto split: sum.splits)
    show ?thesis
    proof (cases "in_PRIMITIVES x")
      case True
      with ok VList Cons n have "\<not> is_terra_name n" by simp
      with True VList Cons n nm found show ?thesis
        by (cases d)
          (simp_all add: from_dict_step_def getattr_safe_def overwrite_eligible_def
            decode_nested_def resolve_list_def)
    next
      case False
      with ok VList Cons n obtain c where c: "is_terra_name n" "locate E n = Some c"
        "items_round_trippable E c xs"
        by (auto split: option.splits)
      from elems [OF VList] have "\<forall>x \<in> set xs. round_trippable E x \<longrightarrow> decodes_back E x"
        by blast
      from items_round_trip [OF c(3) this c(2)] obtain ys where
        ys: "to_dict_items xs = Inr ys" "length ys = length xs"
          "from_dict_items E n ys = Inr (enums_as_ints_items xs)"
        by auto
      from ys(2) Cons obtain y ys' where ys': "ys = y # ys'" by (cases ys) auto
      with False VList Cons n nm found c ys show ?thesis
        by (cases d)
          (simp_all add: from_dict_step_def getattr_safe_def overwrite_eligible_def
            decode_nested_def resolve_list_def)
    qed
  qed
next
  case VOther
  with ok show ?thesis by simp
qed (use ok found in \<open>auto simp: from_dict_step_def getattr_safe_def overwrite_eligible_def
        decode_nested_def resolve_list_def in_None_or_empty_def\<close>)

lemma fields_round_trip:
  assumes "fields_round_trippable E cls ds attrs" and "distinct (map fst attrs)"
    and "\<forall>(k, v) \<in> set attrs. field_decodes_back E cls k v"
    and "fst ` set pre \<inter> fst ` set attrs = {}"
  shows "\<exists>out. to_dict_loop attrs = Inr out \<and>
           from_dict_loop E cls safe (pre @ ds) out =
             Inr (VModel cls (pre @ enums_as_ints_attrs attrs))"
  using assms
proof (induction attrs arbitrary: ds pre)
  case Nil
  then show ?case by (cases ds) auto
next
  case (Cons p attrs)
  obtain k v where p: "p = (k, v)" by (cases p)
  from Cons.prems(1) p obtain d ds' where ds: "ds = (k, d) # ds'"
    and fld: "if is_data_attr k then field_round_trippable E cls k d v else v = d"
    and rest: "fields_round_trippable E cls ds' attrs"
    by (cases ds) auto
  from Cons.prems(2) p have dist: "distinct (map fst attrs)" and knew: "k \<notin> fst ` set attrs"
    by auto
  from Cons.prems(4) p have kpre: "k \<notin> fst ` set pre" by auto
  have step: "\<forall>(k, v) \<in> set attrs. field_decodes_back E cls k v"
    using Cons.prems(3) by simp
  define v' where "v' = (if is_data_attr k then enums_as_ints_attr v else v)"
  have disj: "fst ` set (pre @ [(k, v')]) \<inter> fst ` set attrs = {}"
    using Cons.prems(4) knew p by auto
  from Cons.IH [OF rest dist step disj] obtain out where
    out: "to_dict_loop attrs = Inr out"
      "from_dict_loop E cls safe (pre @ (k, v') # ds') out =
         Inr (VModel cls (pre @ (k, v') # enums_as_ints_attrs attrs))"
    by auto
  show ?case
  proof (cases "is_data_attr k")
    case False
    with fld have "v = d" by simp
    with False out p ds show ?thesis by (simp add: v'_def)
  next
    case True
    with fld have "field_round_trippable E cls k d v" by simp
    moreover have "getattr_opt (pre @ (k, d) # ds') k = Some d"
      using kpre by (rule getattr_opt_append_fresh)
    moreover from Cons.prems(3) p have "field_decodes_back E cls k v" by simp
    ultimately obtain y where y: "encode_attr v = Inr y"
      "from_dict_step E cls safe (pre @ (k, d) # ds') k y =
         Inr (AList.update k (enums_as_ints_attr v) (pre @ (k, d) # ds'))"
      unfolding field_decodes_back_def by blast
    with True out p ds kpre show ?thesis
      by (simp add: v'_def from_dict_loop_source update_append_fresh)
  qed
qed

lemma round_trip_model:
  assumes rt: "round_trippable E (VModel c attrs)"
    and fields: "\<forall>(k, v) \<in> set attrs. field_decodes_back E c k v"
  shows "decodes_back E (VModel c attrs)"
proof -
  from rt have f: "fields_round_trippable E c (new_instance E c) attrs"
    and d: "distinct (map fst attrs)" by auto
  have *: "\<exists>out. to_dict_loop attrs = Inr out \<and>
           from_dict_loop E c safe ([] @ new_instance E c) out =
             Inr (VModel c ([] @ enums_as_ints_attrs attrs))" for safe
    using f d fields by (rule fields_round_trip) simp
  from * [of False] obtain out where out: "to_dict_loop attrs = Inr out" by auto
  have "from_dict_loop E c safe (new_instance E c) out =
          Inr (VModel c (enums_as_ints_attrs attrs))" for safe
    using * [of safe] out by auto
  with out show ?thesis
    by (simp add: decodes_back_def from_dict.simps)
qed

lemma round_trip_induct:
  "(round_trippable E v \<longrightarrow> decodes_back E v) \<and>
   (\<forall>xs. v = VList xs \<longrightarrow> (\<forall>x \<in> set xs. round_trippable E x \<longrightarrow> decodes_back E x))"
proof (induction v)
  case (VList xs)
  then show ?case by auto
next
  case (VModel c attrs)
  have "field_decodes_back E c k v" if kv: "(k, v) \<in> set attrs" for k v
    unfolding field_decodes_back_def
  proof (intro allI impI)
    fix d dm safe
    assume ok: "field_round_trippable E c k d v" and found: "getattr_opt dm k = Some d"
    from VModel.IH kv have ih:
      "(round_trippable E v \<longrightarrow> decodes_back E v) \<and>
       (\<forall>xs. v = VList xs \<longrightarrow> (\<forall>x \<in> set xs. round_trippable E x \<longrightarrow> decodes_back E x))"
      by fastforce
    show "\<exists>y. encode_attr v = Inr y \<and>
             from_dict_step E c safe dm k y = Inr (AList.update k (enums_as_ints_attr v) dm)"
      using ok _ _ found by (rule field_round_trip) (use ih in auto)
  qed
  then have "\<forall>(k, v) \<in> set attrs. field_decodes_back E c k v" by auto
  then have "decodes_back E (VModel c attrs)" if "round_trippable E (VModel c attrs)"
    using that by (intro round_trip_model)
  then show ?case by simp
qed simp_all

lemma enums_as_ints_enum_free:
  "enum_free v \<Longrightarrow> enums_as_ints v = v"
  "enum_free_attr w \<Longrightarrow> enums_as_ints_attr w = w"
  "enum_free_attrs attrs \<Longrightarrow> enums_as_ints_attrs attrs = attrs"
  "enum_free_items xs \<Longrightarrow> enums_as_ints_items xs = xs"
  by (induction v and w and attrs and xs
      rule: enums_as_ints_enums_as_ints_attr_enums_as_ints_attrs_enums_as_ints_items.induct)
    auto

text \<open>
  Claim C1, amended. For every round-trippable instance of a class \<open>cls\<close>,
  \<^verbatim>\<open>to_dict\<close> returns a mapping, and \<^verbatim>\<open>from_dict\<close> of \<open>cls\<close> on that mapping (with either
  value of \<^verbatim>\<open>safe\<close>) returns the instance with its enum members as integers; that is
  the instance itself when no enumerated field holds an enum member.
\<close>

theorem round_trip:
  assumes "round_trippable E (VModel cls attrs)"
  shows "\<exists>d. to_dict (VModel cls attrs) = Inr d \<and>
           from_dict E cls (VDict d) safe = Inr (enums_as_ints (VModel cls attrs)) \<and>
           (enum_free (VModel cls attrs) \<longrightarrow>
              from_dict E cls (VDict d) safe = Inr (VModel cls attrs))"
proof -
  from assms have "decodes_back E (VModel cls attrs)"
    using round_trip_induct [of E "VModel cls attrs"] by simp
  then obtain d where d: "to_dict (VModel cls attrs) = Inr d"
    "from_dict E cls (VDict d) safe = Inr (enums_as_ints (VModel cls attrs))"
    by (auto simp: decodes_back_def)
  moreover have "enums_as_ints (VModel cls attrs) = VModel cls attrs"
    if "enum_free (VModel cls attrs)"
    using that by (rule enums_as_ints_enum_free)
  ultimately show ?thesis by auto
qed

theorem round_trip_witness:
  "round_trippable demo_env
     (VModel ''Record''
        [(''title'', VStr ''run''),
         (''inner'', VModel ''Inner'' [(''a'', VInt 1), (''b'', VFloat 7)]),
         (''parts'', VList [VModel ''Inner'' [(''a'', VInt 1), (''b'', VBool True)],
                            VModel ''Inner'' [(''a'', VStr ''x''), (''b'', VDict [(''q'', VNone)])]]),
         (''tags'', VList [VStr ''x'', VStr ''y''])]) \<and>
   to_dict
     (VModel ''Record''
        [(''title'', VStr ''run''),
         (''inner'', VModel ''Inner'' [(''a'', VInt 1), (''b'', VFloat 7)]),
         (''parts'', VList [VModel ''Inner'' [(''a'', VInt 1), (''b'', VBool True)],
                            VModel ''Inner'' [(''a'', VStr ''x''), (''b'', VDict [(''q'', VNone)])]]),
         (''tags'', VList [VStr ''x'', VStr ''y''])]) =
     Inr [(''title'', VStr ''run''),
          (''inner'', VDict [(''a'', VInt 1), (''b'', VFloat 7)]),
          (''parts'', VList [VDict [(''a'', VInt 1), (''b'', VBool True)],
                             VDict [(''a'', VStr ''x''), (''b'', VDict [(''q'', VNone)])]]),
          (''tags'', VList [VStr ''x'', VStr ''y''])] \<and>
   from_dict demo_env ''Record''
     (VDict [(''title'', VStr ''run''),
          (''inner'', VDict [(''a'', VInt 1), (''b'', VFloat 7)]),
          (''parts'', VList [VDict [(''a'', VInt 1), (''b'', VBool True)],
                             VDict [(''a'', VStr ''x''), (''b'', VDict [(''q'', VNone)])]]),
          (''tags'', VList [VStr ''x'', VStr ''y''])]) False =
     Inr (VModel ''Record''
        [(''title'', VStr ''run''),
         (''inner'', VModel ''Inner'' [(''a'', VInt 1), (''b'', VFloat 7)]),
         (''parts'', VList [VModel ''Inner'' [(''a'', VInt 1), (''b'', VBool True)],
                            VModel ''Inner'' [(''a'', VStr ''x''), (''b'', VDict [(''q'', VNone)])]]),
         (''tags'', VList [VStr ''x'', VStr ''y''])])"
  using round_trip [where E = demo_env and cls = "''Record''" and safe = False and attrs =
     "[(''title'', VStr ''run''),
         (''inner'', VModel ''Inner'' [(''a'', VInt 1), (''b'', VFloat 7)]),
         (''parts'', VList [VModel ''Inner'' [(''a'', VInt 1), (''b'', VBool True)],
                            VModel ''Inner'' [(''a'', VStr ''x''), (''b'', VDict [(''q'', VNone)])]]),
         (''tags'', VList [VStr ''x'', VStr ''y''])]"]
  by (simp add: demo_env_def is_data_attr_def dir_TerraDataModel_def
      startswith_underscore_def in_None_or_empty_def current_field_name_def piece_def
      is_terra_name_def)

section \<open>The encoder on a store of objects\<close>

text \<open>
  Whether \<^verbatim>\<open>to_dict\<close> changes the instance it reads cannot be asked of a function from
  values to values. Here the same method runs on a store: dicts, lists and model
  instances are objects at addresses, and an attribute or an element holds either an
  immutable value or a reference to an object. Objects may share parts and may refer back
  to themselves.
\<close>

datatype sval =
    SNone
  | SStr string
  | SInt int
  | SBool bool
  | SFloat "64 word"
  | SEnum int
  | SOther
  | SRef nat

datatype obj =
    ODict "(string \<times> sval) list"
  | OList "sval list"
  | OModel string "(string \<times> sval) list"

type_synonym store = "obj list"

text \<open>
  A run has a budget of steps (every call and every iteration takes one) and ends in one
  of three ways: it returns, it raises, or the budget is spent. On a cyclic instance the
  recursion of \<^verbatim>\<open>to_dict\<close> has no end, and no budget suffices.
\<close>

datatype 'a outcome = Returns 'a | Raises error | Unfinished

text \<open>The object at an address of the store, if the address is in use.\<close>

definition deref :: "store \<Rightarrow> nat \<Rightarrow> obj option" where
  "deref s r = (if r < length s then Some (s ! r) else None)"

text \<open>\<^verbatim>\<open>type(x) in PRIMITIVES\<close>, where a reference is to be followed to see a \<^verbatim>\<open>dict\<close>.\<close>

fun in_PRIMITIVES_st :: "store \<Rightarrow> sval \<Rightarrow> bool" where
  "in_PRIMITIVES_st s (SRef r) = (case deref s r of Some (ODict d) \<Rightarrow> True | _ \<Rightarrow> False)"
| "in_PRIMITIVES_st s (SEnum n) = False"
| "in_PRIMITIVES_st s SOther = False"
| "in_PRIMITIVES_st s v = True"

text \<open>\<^verbatim>\<open>getattr(self, attr)\<close> reads the instance as the store has it at that moment.\<close>

definition getattr_st :: "store \<Rightarrow> nat \<Rightarrow> string \<Rightarrow> sval option" where
  "getattr_st s self attr =
     (case deref s self of Some (OModel c attrs) \<Rightarrow> map_of attrs attr | _ \<Rightarrow> None)"

text \<open>\<^verbatim>\<open>output[attr] = x\<close>, the only assignment in \<^verbatim>\<open>to_dict\<close>.\<close>

definition setitem_st :: "store \<Rightarrow> nat \<Rightarrow> string \<Rightarrow> sval \<Rightarrow> store" where
  "setitem_st s out attr x =
     (case deref s out of
        Some (ODict d) \<Rightarrow> s[out := ODict (AList.update attr x d)]
      | _ \<Rightarrow> s)"

text \<open>
  \<open>to_dict_st fuel s self\<close>: \<^verbatim>\<open>self.to_dict()\<close> in store \<open>s\<close>. It yields the store after the
  run and, if the run returned, the address of the new dict. \<^verbatim>\<open>output = {}\<close> allocates at
  the end of the store, as does the list that the comprehension builds. The names are
  enumerated once (line 63), the values are read in each iteration (line 67).
\<close>

function to_dict_st :: "nat \<Rightarrow> store \<Rightarrow> nat \<Rightarrow> store \<times> nat outcome"
  and to_dict_loop_st :: "nat \<Rightarrow> store \<Rightarrow> nat \<Rightarrow> nat \<Rightarrow> string list \<Rightarrow> store \<times> nat outcome"
  and encode_attr_st :: "nat \<Rightarrow> store \<Rightarrow> sval \<Rightarrow> store \<times> sval outcome"
  and to_dict_items_st :: "nat \<Rightarrow> store \<Rightarrow> sval list \<Rightarrow> store \<times> sval list outcome"
where
  "to_dict_st 0 s self = (s, Unfinished)"
| "to_dict_st (Suc fuel) s self =
     (case deref s self of
        Some (OModel c attrs) \<Rightarrow>
          to_dict_loop_st fuel (s @ [ODict []]) self (length s) (get_attrs attrs)
      | _ \<Rightarrow> (s, Raises AttributeError))"
| "to_dict_loop_st 0 s self out attrs = (s, Unfinished)"
| "to_dict_loop_st (Suc fuel) s self out attrs =
     (case attrs of
        [] \<Rightarrow> (s, Returns out)
      | attr # rest \<Rightarrow>
          (case getattr_st s self attr of
             None \<Rightarrow> (s, Raises AttributeError)
           | Some attr_val \<Rightarrow>
               (case encode_attr_st fuel s attr_val of
                  (s', Returns x) \<Rightarrow>
                    to_dict_loop_st fuel (setitem_st s' out attr x) self out rest
                | (s', Raises e) \<Rightarrow> (s', Raises e)
                | (s', Unfinished) \<Rightarrow> (s', Unfinished))))"
| "encode_attr_st 0 s attr_val = (s, Unfinished)"
| "encode_attr_st (Suc fuel) s attr_val =
     (case attr_val of
        SEnum n \<Rightarrow> (s, Returns (SInt n))
      | SOther \<Rightarrow> (s, Raises AttributeError)
      | SRef r \<Rightarrow>
          (case deref s r of
             None \<Rightarrow> (s, Raises AttributeError)
           | Some (ODict d) \<Rightarrow> (s, Returns attr_val)
           | Some (OList xs) \<Rightarrow>
               if xs = [] \<or> in_PRIMITIVES_st s (hd xs) then (s, Returns attr_val)
               else (case to_dict_items_st fuel s xs of
                       (s', Returns ys) \<Rightarrow> (s' @ [OList ys], Returns (SRef (length s')))
                     | (s', Raises e) \<Rightarrow> (s', Raises e)
                     | (s', Unfinished) \<Rightarrow> (s', Unfinished))
           | Some (OModel c attrs) \<Rightarrow>
               (case to_dict_st fuel s r of
                  (s', Returns d) \<Rightarrow> (s', Returns (SRef d))
                | (s', Raises e) \<Rightarrow> (s', Raises e)
                | (s', Unfinished) \<Rightarrow> (s', Unfinished)))
      | _ \<Rightarrow> (s, Returns attr_val))"
| "to_dict_items_st 0 s xs = (s, Unfinished)"
| "to_dict_items_st (Suc fuel) s xs =
     (case xs of
        [] \<Rightarrow> (s, Returns [])
      | SRef r # rest \<Rightarrow>
          (case to_dict_st fuel s r of
             (s', Returns d) \<Rightarrow>
               (case to_dict_items_st fuel s' rest of
                  (s'', Returns ds) \<Rightarrow> (s'', Returns (SRef d # ds))
                | (s'', Raises e) \<Rightarrow> (s'', Raises e)
                | (s'', Unfinished) \<Rightarrow> (s'', Unfinished))
           | (s', Raises e) \<Rightarrow> (s', Raises e)
           | (s', Unfinished) \<Rightarrow> (s', Unfinished))
      | item # rest \<Rightarrow> (s, Raises AttributeError))"
  by pat_completeness auto
termination
  by (relation "measure (\<lambda>x. case x of
      Inl (Inl (fuel, s, self)) \<Rightarrow> fuel
    | Inl (Inr (fuel, s, self, out, attrs)) \<Rightarrow> fuel
    | Inr (Inl (fuel, s, v)) \<Rightarrow> fuel
    | Inr (Inr (fuel, s, xs)) \<Rightarrow> fuel)") simp_all

text \<open>An instance with a nested model, two lists that share that model, and a dict.\<close>

definition store1 :: store where
  "store1 =
     [OModel ''Outer'' [(''name'', SStr ''n''), (''inner'', SRef 1), (''parts'', SRef 2), (''e'', SEnum 4), (''tags'', SRef 3), (''m'', SRef 4)],
      OModel ''Inner'' [(''a'', SInt 1)],
      OList [SRef 1, SRef 1],
      OList [SStr ''x'', SRef 1],
      ODict [(''k'', SRef 1)]]"

text \<open>
  \<open>preserves s s'\<close>: every object of store \<open>s\<close> is in \<open>s'\<close>, at its address and unchanged;
  \<open>preserves_but out s s'\<close>: every object but the one at \<open>out\<close>.
\<close>

definition preserves :: "store \<Rightarrow> store \<Rightarrow> bool" where
  "preserves s s' = (length s \<le> length s' \<and> (\<forall>a < length s. s' ! a = s ! a))"

definition preserves_but :: "nat \<Rightarrow> store \<Rightarrow> store \<Rightarrow> bool" where
  "preserves_but out s s' =
     (length s \<le> length s' \<and> (\<forall>a < length s. a \<noteq> out \<longrightarrow> s' ! a = s ! a))"

lemma preserves_refl: "preserves s s"
  by (simp add: preserves_def)

lemma preserves_trans: "preserves s s' \<Longrightarrow> preserves s' s'' \<Longrightarrow> preserves s s''"
  by (auto simp: preserves_def)

lemma preserves_append: "preserves s (s @ new)"
  by (simp add: preserves_def nth_append)

lemma preserves_but_refl: "preserves_but out s s"
  by (simp add: preserves_but_def)

lemma preserves_but_trans:
  "preserves_but out s s' \<Longrightarrow> preserves_but out s' s'' \<Longrightarrow> preserves_but out s s''"
  by (auto simp: preserves_but_def)

lemma preserves_imp_but: "preserves s s' \<Longrightarrow> preserves_but out s s'"
  by (simp add: preserves_def preserves_but_def)

lemma preserves_but_setitem: "preserves_but out s (setitem_st s out attr x)"
  by (auto simp: preserves_but_def setitem_st_def split: option.splits obj.splits)

lemma length_setitem: "length (setitem_st s out attr x) = length s"
  by (auto simp: setitem_st_def split: option.splits obj.splits)

lemma preserves_but_fresh:
  "preserves_but (length s) (s @ [ob]) s' \<Longrightarrow> preserves s s'"
  by (auto simp: preserves_def preserves_but_def nth_append)

lemma to_dict_st_frame_all:
  "(\<forall>s self s' r. to_dict_st fuel s self = (s', r) \<longrightarrow> preserves s s') \<and>
   (\<forall>s self out attrs s' r. to_dict_loop_st fuel s self out attrs = (s', r) \<longrightarrow>
       preserves_but out s s') \<and>
   (\<forall>s v s' r. encode_attr_st fuel s v = (s', r) \<longrightarrow> preserves s s') \<and>
   (\<forall>s xs s' r. to_dict_items_st fuel s xs = (s', r) \<longrightarrow> preserves s s')"
proof (induction fuel)
  case 0
  show ?case by (simp add: preserves_refl preserves_but_refl)
next
  case (Suc fuel)
  then have ih1: "\<And>s self s' r. to_dict_st fuel s self = (s', r) \<Longrightarrow> preserves s s'"
    and ih2: "\<And>s self out attrs s' r. to_dict_loop_st fuel s self out attrs = (s', r) \<Longrightarrow>
       preserves_but out s s'"
    and ih3: "\<And>s v s' r. encode_attr_st fuel s v = (s', r) \<Longrightarrow> preserves s s'"
    and ih4: "\<And>s xs s' r. to_dict_items_st fuel s xs = (s', r) \<Longrightarrow> preserves s s'"
    by blast+
  have 1: "preserves s s'" if run: "to_dict_st (Suc fuel) s self = (s', r)" for s self s' r
  proof (cases "deref s self")
    case None
    with run show ?thesis by (simp add: preserves_refl)
  next
    case (Some ob)
    show ?thesis
    proof (cases ob)
      case (OModel c attrs)
      with run Some
      have "to_dict_loop_st fuel (s @ [ODict []]) self (length s) (get_attrs attrs) = (s', r)"
        by simp
      then have "preserves_but (length s) (s @ [ODict []]) s'" by (rule ih2)
      then show ?thesis by (rule preserves_but_fresh)
    qed (use run Some in \<open>simp_all add: preserves_refl\<close>)
  qed
  have 2: "preserves_but out s s'"
    if "to_dict_loop_st (Suc fuel) s self out attrs = (s', r)" for s self out attrs s' r
  proof (cases attrs)
    case Nil
    with that show ?thesis by (simp add: preserves_but_refl)
  next
    case (Cons attr rest)
    show ?thesis
    proof (cases "getattr_st s self attr")
      case None
      with that Cons show ?thesis by (simp add: preserves_but_refl)
    next
      case (Some attr_val)
      obtain s1 r1 where e: "encode_attr_st fuel s attr_val = (s1, r1)" by force
      then have p1: "preserves_but out s s1" by (intro preserves_imp_but ih3)
      show ?thesis
      proof (cases r1)
        case (Returns x)
        with that Cons Some e
        have "to_dict_loop_st fuel (setitem_st s1 out attr x) self out rest = (s', r)" by simp
        then have "preserves_but out (setitem_st s1 out attr x) s'" by (rule ih2)
        with preserves_but_setitem have "preserves_but out s1 s'" by (rule preserves_but_trans)
        with p1 show ?thesis by (rule preserves_but_trans)
      next
        case (Raises e')
        with that Cons Some e p1 show ?thesis by simp
      next
        case Unfinished
        with that Cons Some e p1 show ?thesis by simp
      qed
    qed
  qed
  have 3: "preserves s s'" if run: "encode_attr_st (Suc fuel) s v = (s', r)" for s v s' r
  proof (cases v)
    case (SRef a)
    show ?thesis
    proof (cases "deref s a")
      case None
      with run SRef show ?thesis by (simp add: preserves_refl)
    next
      case (Some ob)
      show ?thesis
      proof (cases ob)
        case (ODict d)
        with run SRef Some show ?thesis by (simp add: preserves_refl)
      next
        case (OList xs)
        show ?thesis
        proof (cases "xs = [] \<or> in_PRIMITIVES_st s (hd xs)")
          case True
          with run SRef Some OList show ?thesis by (auto simp: preserves_refl)
        next
          case False
          obtain s1 r1 where it: "to_dict_items_st fuel s xs = (s1, r1)" by force
          then have p: "preserves s s1" by (rule ih4)
          from p preserves_append have "preserves s (s1 @ [OList ys])" for ys
            by (rule preserves_trans)
          with run SRef Some OList False it p show ?thesis
            by (cases r1) auto
        qed
      next
        case (OModel c attrs)
        obtain s1 r1 where td: "to_dict_st fuel s a = (s1, r1)" by force
        then have "preserves s s1" by (rule ih1)
        with run SRef Some OModel td show ?thesis by (cases r1) auto
      qed
    qed
  qed (use run in \<open>auto simp: preserves_refl\<close>)
  have 4: "preserves s s'" if run: "to_dict_items_st (Suc fuel) s xs = (s', r)" for s xs s' r
  proof (cases xs)
    case Nil
    with run show ?thesis by (simp add: preserves_refl)
  next
    case (Cons item rest)
    show ?thesis
    proof (cases item)
      case (SRef a)
      obtain s1 r1 where td: "to_dict_st fuel s a = (s1, r1)" by force
      then have p1: "preserves s s1" by (rule ih1)
      show ?thesis
      proof (cases r1)
        case (Returns d)
        obtain s2 r2 where it: "to_dict_items_st fuel s1 rest = (s2, r2)" by force
        then have "preserves s1 s2" by (rule ih4)
        with p1 have "preserves s s2" by (rule preserves_trans)
        with run Cons SRef td Returns it show ?thesis by (cases r2) auto
      next
        case (Raises e)
        with run Cons SRef td p1 show ?thesis by simp
      next
        case Unfinished
        with run Cons SRef td p1 show ?thesis by simp
      qed
    qed (use run Cons in \<open>auto simp: preserves_refl\<close>)
  qed
  from 1 2 3 4 show ?case by blast
qed

text \<open>
  Claim C9. However a run of \<^verbatim>\<open>to_dict\<close> ends, every object that the store held before
  the call (the instance, its nested models, its lists and dicts, and whatever else there
  was) is at its address and unchanged afterwards; the run only adds objects.
\<close>

theorem to_dict_frame:
  assumes "to_dict_st fuel s self = (s', r)"
  shows "length s \<le> length s' \<and> (\<forall>a < length s. s' ! a = s ! a)"
  using assms to_dict_st_frame_all [of fuel] by (auto simp: preserves_def)

theorem to_dict_frame_witness:
  "to_dict_st 30 store1 0 =
     (store1 @
      [ODict [(''name'', SStr ''n''), (''inner'', SRef 6), (''parts'', SRef 9),
              (''e'', SInt 4), (''tags'', SRef 3), (''m'', SRef 4)],
       ODict [(''a'', SInt 1)], ODict [(''a'', SInt 1)], ODict [(''a'', SInt 1)],
       OList [SRef 7, SRef 8]],
      Returns 5) \<and>
   length store1 = 5"
  using to_dict_frame [of 30 store1 0
      "store1 @
        [ODict [(''name'', SStr ''n''), (''inner'', SRef 6), (''parts'', SRef 9),
                (''e'', SInt 4), (''tags'', SRef 3), (''m'', SRef 4)],
         ODict [(''a'', SInt 1)], ODict [(''a'', SInt 1)], ODict [(''a'', SInt 1)],
         OList [SRef 7, SRef 8]]"
      "Returns 5"]
  by (simp add: store1_def numeral_eq_Suc deref_def getattr_st_def setitem_st_def get_attrs_def
      is_data_attr_def dir_TerraDataModel_def startswith_underscore_def)

section \<open>The two encoders agree\<close>

text \<open>
  The encoder on values and the encoder on a store are two readings of the same method.
  This section shows that they compute the same thing whenever the instance in the store
  is a value at all: on a store whose objects, followed from the instance, unfold into a
  value (objects may be shared, but no object reaches itself), the run on the store
  returns, and the dict it builds unfolds into the dict that \<open>to_dict\<close> builds from that
  value; if \<open>to_dict\<close> raises, so does the run.

  \<open>represents A s v t\<close>: followed through the objects of store \<open>s\<close> at the addresses \<open>A\<close>,
  the stored \<open>v\<close> unfolds into the value \<open>t\<close>. The attribute names of a model instance are
  distinct, as those of an object are.
\<close>

inductive represents :: "nat set \<Rightarrow> store \<Rightarrow> sval \<Rightarrow> val \<Rightarrow> bool"
  and represents_attrs ::
    "nat set \<Rightarrow> store \<Rightarrow> (string \<times> sval) list \<Rightarrow> (string \<times> val) list \<Rightarrow> bool"
  and represents_list :: "nat set \<Rightarrow> store \<Rightarrow> sval list \<Rightarrow> val list \<Rightarrow> bool"
  for A :: "nat set" and s :: store
where
  rep_None: "represents A s SNone VNone"
| rep_Str: "represents A s (SStr x) (VStr x)"
| rep_Int: "represents A s (SInt i) (VInt i)"
| rep_Bool: "represents A s (SBool b) (VBool b)"
| rep_Float: "represents A s (SFloat f) (VFloat f)"
| rep_Enum: "represents A s (SEnum n) (VEnum n)"
| rep_Other: "represents A s SOther VOther"
| rep_Dict: "r \<in> A \<Longrightarrow> deref s r = Some (ODict d) \<Longrightarrow> represents_attrs A s d d' \<Longrightarrow>
     represents A s (SRef r) (VDict d')"
| rep_List: "r \<in> A \<Longrightarrow> deref s r = Some (OList xs) \<Longrightarrow> represents_list A s xs xs' \<Longrightarrow>
     represents A s (SRef r) (VList xs')"
| rep_Model: "r \<in> A \<Longrightarrow> deref s r = Some (OModel c attrs) \<Longrightarrow> distinct (map fst attrs) \<Longrightarrow>
     represents_attrs A s attrs attrs' \<Longrightarrow> represents A s (SRef r) (VModel c attrs')"
| rep_attrs_Nil: "represents_attrs A s [] []"
| rep_attrs_Cons: "represents A s v t \<Longrightarrow> represents_attrs A s rest rest' \<Longrightarrow>
     represents_attrs A s ((k, v) # rest) ((k, t) # rest')"
| rep_list_Nil: "represents_list A s [] []"
| rep_list_Cons: "represents A s v t \<Longrightarrow> represents_list A s rest rest' \<Longrightarrow>
     represents_list A s (v # rest) (t # rest')"


text \<open>
  An unfolding only looks at the addresses in \<open>A\<close>: it survives in any store that holds the
  same objects there.
\<close>

lemma represents_stable:
  "represents A s v t \<Longrightarrow> (\<And>B s'. A \<subseteq> B \<Longrightarrow> \<forall>a \<in> A. deref s' a = deref s a \<Longrightarrow> represents B s' v t)"
  "represents_attrs A s d d' \<Longrightarrow> (\<And>B s'. A \<subseteq> B \<Longrightarrow> \<forall>a \<in> A. deref s' a = deref s a \<Longrightarrow> represents_attrs B s' d d')"
  "represents_list A s xs xs' \<Longrightarrow> (\<And>B s'. A \<subseteq> B \<Longrightarrow> \<forall>a \<in> A. deref s' a = deref s a \<Longrightarrow> represents_list B s' xs xs')"
proof (induction rule: represents_represents_attrs_represents_list.inducts)
  case (rep_Dict r d d')
  then show ?case by (auto intro!: represents_represents_attrs_represents_list.intros(8))
next
  case (rep_List r xs xs')
  then show ?case by (auto intro!: represents_represents_attrs_represents_list.intros(9))
next
  case (rep_Model r c attrs attrs')
  then show ?case by (auto intro!: represents_represents_attrs_represents_list.intros(10))
qed (auto intro: represents_represents_attrs_represents_list.intros)

inductive_cases represents_RefE: "represents A s (SRef r) t"
inductive_cases represents_attrs_ConsE: "represents_attrs A s (p # rest) d'"
inductive_cases represents_attrs_NilE: "represents_attrs A s [] d'"
inductive_cases represents_list_ConsE: "represents_list A s (v # rest) xs'"
inductive_cases represents_list_NilE: "represents_list A s [] xs'"

lemma represents_prim:
  "represents A s v t \<Longrightarrow> in_PRIMITIVES_st s v = in_PRIMITIVES t"
  by (cases rule: represents.cases) auto

lemma represents_attrs_append:
  "represents_attrs A s d d' \<Longrightarrow> represents A s v t \<Longrightarrow>
   represents_attrs A s (d @ [(k, v)]) (d' @ [(k, t)])"
  by (induction d arbitrary: d')
    (auto elim!: represents_attrs_ConsE represents_attrs_NilE
      intro!: rep_attrs_Cons rep_attrs_Nil)

text \<open>
  \<open>finishes run s' r\<close>: with a large enough budget the run ends in store \<open>s'\<close> with outcome
  \<open>r\<close>, whatever the budget beyond that.
\<close>

definition finishes :: "(nat \<Rightarrow> store \<times> 'a outcome) \<Rightarrow> store \<Rightarrow> 'a outcome \<Rightarrow> bool" where
  "finishes run s' r = (\<exists>f0. \<forall>fuel \<ge> f0. run fuel = (s', r))"

lemma finishesI:
  assumes "\<And>n. f0 \<le> n \<Longrightarrow> run (Suc n) = (s', r)"
  shows "finishes run s' r"
  unfolding finishes_def
proof (intro exI allI impI)
  fix fuel assume "Suc f0 \<le> fuel"
  then obtain n where "fuel = Suc n" "f0 \<le> n" by (cases fuel) auto
  with assms show "run fuel = (s', r)" by simp
qed

text \<open>
  \<open>agree A s0 s\<close>: store \<open>s\<close> holds at the addresses \<open>A\<close> what \<open>s0\<close> held there. The four
  statements below are what each of the four functions of the store encoder owes to its
  counterpart on values; what the run allocates lies beyond the store it started in.
\<close>

definition agree :: "nat set \<Rightarrow> store \<Rightarrow> store \<Rightarrow> bool" where
  "agree A s0 s = ((\<forall>a \<in> A. deref s a = deref s0 a) \<and> A \<subseteq> {..<length s})"

definition enc_sim :: "nat set \<Rightarrow> store \<Rightarrow> sval \<Rightarrow> val \<Rightarrow> bool" where
  "enc_sim A s v t =
     (\<exists>s' r. finishes (\<lambda>fuel. encode_attr_st fuel s v) s' r \<and> preserves s s' \<and>
        (case encode_attr t of
           Inl e \<Rightarrow> r = Raises e
         | Inr y \<Rightarrow> \<exists>x. r = Returns x \<and> represents (A \<union> {length s..<length s'}) s' x y))"

definition td_sim :: "nat set \<Rightarrow> store \<Rightarrow> sval \<Rightarrow> val \<Rightarrow> bool" where
  "td_sim A s v t =
     (\<forall>a. v = SRef a \<longrightarrow>
        (\<exists>s' r. finishes (\<lambda>fuel. to_dict_st fuel s a) s' r \<and> preserves s s' \<and>
           (case to_dict t of
              Inl e \<Rightarrow> r = Raises e
            | Inr d \<Rightarrow>
                \<exists>out. r = Returns out \<and>
                  represents (A \<union> {length s..<length s'}) s' (SRef out) (VDict d))))"

definition items_sim :: "nat set \<Rightarrow> store \<Rightarrow> sval list \<Rightarrow> val list \<Rightarrow> bool" where
  "items_sim A s xs ts =
     (\<exists>s' r. finishes (\<lambda>fuel. to_dict_items_st fuel s xs) s' r \<and> preserves s s' \<and>
        (case to_dict_items ts of
           Inl e \<Rightarrow> r = Raises e
         | Inr ys' \<Rightarrow>
             \<exists>ys. r = Returns ys \<and>
               represents_list (A \<union> {length s..<length s'}) s' ys ys'))"

definition loop_sim ::
  "nat set \<Rightarrow> store \<Rightarrow> nat \<Rightarrow> nat \<Rightarrow> (string \<times> val) list \<Rightarrow>
   (string \<times> sval) list \<Rightarrow> (string \<times> val) list \<Rightarrow> bool"
where
  "loop_sim A s self out tacc d d' =
     (\<exists>s' r. finishes (\<lambda>fuel. to_dict_loop_st fuel s self out (get_attrs d)) s' r \<and>
        preserves_but out s s' \<and>
        (case to_dict_loop d' of
           Inl e \<Rightarrow> r = Raises e
         | Inr od \<Rightarrow>
             r = Returns out \<and>
             (\<exists>fin. deref s' out = Some (ODict fin) \<and>
                represents_attrs (A \<union> {Suc out..<length s'}) s' fin (tacc @ od))))"

lemma agree_represents:
  "represents A s0 v t \<Longrightarrow> agree A s0 s \<Longrightarrow> A \<subseteq> B \<Longrightarrow> represents B s v t"
  by (rule represents_stable(1)) (auto simp: agree_def)

lemma agree_represents_list:
  "represents_list A s0 v t \<Longrightarrow> agree A s0 s \<Longrightarrow> A \<subseteq> B \<Longrightarrow> represents_list B s v t"
  by (rule represents_stable(3)) (auto simp: agree_def)

lemma agree_represents_attrs:
  "represents_attrs A s0 v t \<Longrightarrow> agree A s0 s \<Longrightarrow> A \<subseteq> B \<Longrightarrow> represents_attrs B s v t"
  by (rule represents_stable(2)) (auto simp: agree_def)

lemma preserves_deref: "preserves s s' \<Longrightarrow> a < length s \<Longrightarrow> deref s' a = deref s a"
  by (auto simp: preserves_def deref_def)

lemma preserves_length: "preserves s s' \<Longrightarrow> length s \<le> length s'"
  by (simp add: preserves_def)

lemma agree_preserves:
  assumes "agree A s0 s" and "preserves s s'"
  shows "agree A s0 s'"
proof -
  have "deref s' a = deref s0 a" if "a \<in> A" for a
  proof -
    from that assms(1) have "a < length s" "deref s a = deref s0 a" by (auto simp: agree_def)
    with assms(2) show ?thesis by (simp add: preserves_deref)
  qed
  moreover from assms have "A \<subseteq> {..<length s'}"
    by (auto simp: agree_def dest!: preserves_length)
  ultimately show ?thesis by (simp add: agree_def)
qed

lemma represents_preserved:
  assumes "represents B s v t" and "preserves s s'" and "B \<subseteq> {..<length s}" and "B \<subseteq> C"
  shows "represents C s' v t"
  using assms(1) assms(4)
  by (rule represents_stable(1)) (use assms(2,3) in \<open>auto simp: preserves_deref\<close>)

lemma represents_list_preserved:
  assumes "represents_list B s v t" and "preserves s s'" and "B \<subseteq> {..<length s}" and "B \<subseteq> C"
  shows "represents_list C s' v t"
  using assms(1) assms(4)
  by (rule represents_stable(3)) (use assms(2,3) in \<open>auto simp: preserves_deref\<close>)

lemma sim_immediate:
  assumes "represents A s0 v t" and "\<forall>a. v \<noteq> SRef a" and "\<forall>n. v \<noteq> SEnum n" and "v \<noteq> SOther"
  shows "enc_sim A s v t \<and> td_sim A s v t"
proof -
  from assms have run: "encode_attr_st (Suc n) s v = (s, Returns v)" for n by (cases v) auto
  from assms have enc: "encode_attr t = Inr t" by (auto elim: represents.cases)
  from assms have rep: "represents (A \<union> {length s..<length s}) s v t"
    by (auto elim!: represents.cases intro: represents_represents_attrs_represents_list.intros)
  have "finishes (\<lambda>fuel. encode_attr_st fuel s v) s (Returns v)"
    by (rule finishesI [of 0]) (rule run)
  with enc rep have "enc_sim A s v t"
    unfolding enc_sim_def by (intro exI [of _ s] exI [of _ "Returns v"]) (simp add: preserves_refl)
  moreover from assms have "td_sim A s v t" by (auto simp: td_sim_def)
  ultimately show ?thesis ..
qed

lemma sim_Enum: "enc_sim A s (SEnum n) (VEnum n) \<and> td_sim A s (SEnum n) (VEnum n)"
proof -
  have "finishes (\<lambda>fuel. encode_attr_st fuel s (SEnum n)) s (Returns (SInt n))"
    by (rule finishesI [of 0]) simp
  then have "enc_sim A s (SEnum n) (VEnum n)"
    unfolding enc_sim_def
    by (intro exI [of _ s] exI [of _ "Returns (SInt n)"]) (simp add: preserves_refl rep_Int)
  then show ?thesis by (simp add: td_sim_def)
qed

lemma sim_Other: "enc_sim A s SOther VOther \<and> td_sim A s SOther VOther"
proof -
  have "finishes (\<lambda>fuel. encode_attr_st fuel s SOther) s (Raises AttributeError)"
    by (rule finishesI [of 0]) simp
  then have "enc_sim A s SOther VOther"
    unfolding enc_sim_def
    by (intro exI [of _ s] exI [of _ "Raises AttributeError"]) (simp add: preserves_refl)
  then show ?thesis by (simp add: td_sim_def)
qed

lemma sim_Dict:
  assumes rep: "represents A s0 (SRef a) (VDict d')" and d: "deref s0 a = Some (ODict d)"
    and a: "a \<in> A" and ag: "agree A s0 s"
  shows "enc_sim A s (SRef a) (VDict d') \<and> td_sim A s (SRef a) (VDict d')"
proof -
  from d a ag have ds: "deref s a = Some (ODict d)" by (simp add: agree_def)
  have "finishes (\<lambda>fuel. encode_attr_st fuel s (SRef a)) s (Returns (SRef a))"
    by (rule finishesI [of 0]) (simp add: ds)
  moreover have "represents (A \<union> {length s..<length s}) s (SRef a) (VDict d')"
    using rep ag by (rule agree_represents) simp
  ultimately have "enc_sim A s (SRef a) (VDict d')"
    unfolding enc_sim_def
    by (intro exI [of _ s] exI [of _ "Returns (SRef a)"]) (simp add: preserves_refl)
  moreover have "finishes (\<lambda>fuel. to_dict_st fuel s a) s (Raises AttributeError)"
    by (rule finishesI [of 0]) (simp add: ds)
  then have "td_sim A s (SRef a) (VDict d')"
    unfolding td_sim_def by (auto simp: preserves_refl intro!: exI [of _ s])
  ultimately show ?thesis ..
qed

lemma represents_list_hd:
  "represents_list A s xs ts \<Longrightarrow>
     (xs = [] \<longleftrightarrow> ts = []) \<and> (xs \<noteq> [] \<longrightarrow> represents A s (hd xs) (hd ts))"
  by (cases rule: represents_list.cases) auto

lemma sim_List:
  assumes rep: "represents A s0 (SRef a) (VList ts)" and d: "deref s0 a = Some (OList xs)"
    and reps: "represents_list A s0 xs ts"
    and a: "a \<in> A" and ag: "agree A s0 s" and items: "items_sim A s xs ts"
  shows "enc_sim A s (SRef a) (VList ts) \<and> td_sim A s (SRef a) (VList ts)"
proof -
  from d a ag have ds: "deref s a = Some (OList xs)" by (simp add: agree_def)
  from ag have As: "A \<subseteq> {..<length s}" by (simp add: agree_def)
  have "finishes (\<lambda>fuel. to_dict_st fuel s a) s (Raises AttributeError)"
    by (rule finishesI [of 0]) (simp add: ds)
  then have td: "td_sim A s (SRef a) (VList ts)"
    unfolding td_sim_def by (auto simp: preserves_refl intro!: exI [of _ s])
  from reps ag have reps': "represents_list A s xs ts"
    by (rule agree_represents_list) simp
  then have hd: "xs = [] \<longleftrightarrow> ts = []" "xs \<noteq> [] \<Longrightarrow> represents A s (hd xs) (hd ts)"
    using represents_list_hd by blast+
  have enc: "enc_sim A s (SRef a) (VList ts)"
  proof (cases "xs = [] \<or> in_PRIMITIVES_st s (hd xs)")
    case True
    then have run: "encode_attr_st (Suc n) s (SRef a) = (s, Returns (SRef a))" for n
      by (simp add: ds)
    have "encode_attr (VList ts) = Inr (VList ts)"
    proof (cases ts)
      case Nil
      then show ?thesis by simp
    next
      case (Cons t ts')
      with hd True have "in_PRIMITIVES t" by (auto dest: represents_prim)
      with Cons show ?thesis by simp
    qed
    moreover have "represents (A \<union> {length s..<length s}) s (SRef a) (VList ts)"
      using rep ag by (rule agree_represents) simp
    moreover have "finishes (\<lambda>fuel. encode_attr_st fuel s (SRef a)) s (Returns (SRef a))"
      by (rule finishesI [of 0]) (rule run)
    ultimately show ?thesis
      unfolding enc_sim_def
      by (intro exI [of _ s] exI [of _ "Returns (SRef a)"]) (simp add: preserves_refl)
  next
    case False
    then obtain x xs' where xs: "xs = x # xs'" and np: "\<not> in_PRIMITIVES_st s x"
      by (cases xs) auto
    with hd obtain t ts' where ts: "ts = t # ts'" and npt: "\<not> in_PRIMITIVES t"
      by (cases ts) (auto dest: represents_prim)
    from items obtain s1 r1 where
      fin: "finishes (\<lambda>fuel. to_dict_items_st fuel s xs) s1 r1" and p1: "preserves s s1"
      and res: "case to_dict_items ts of
           Inl e \<Rightarrow> r1 = Raises e
         | Inr ys' \<Rightarrow> \<exists>ys. r1 = Returns ys \<and>
               represents_list (A \<union> {length s..<length s1}) s1 ys ys'"
      unfolding items_sim_def by blast
    from fin obtain f1 where f1: "\<And>n. f1 \<le> n \<Longrightarrow> to_dict_items_st n s xs = (s1, r1)"
      unfolding finishes_def by blast
    show ?thesis
    proof (cases "to_dict_items ts")
      case (Inl e)
      with res have r1: "r1 = Raises e" by simp
      have "finishes (\<lambda>fuel. encode_attr_st fuel s (SRef a)) s1 (Raises e)"
        by (rule finishesI [of f1]) (use False f1 r1 in \<open>simp add: ds\<close>)
      with Inl p1 ts npt show ?thesis
        unfolding enc_sim_def
        by (intro exI [of _ s1] exI [of _ "Raises e"]) simp
    next
      case (Inr ys')
      with res obtain ys where r1: "r1 = Returns ys"
        and rl: "represents_list (A \<union> {length s..<length s1}) s1 ys ys'"
        by auto
      let ?s2 = "s1 @ [OList ys]"
      have fin2: "finishes (\<lambda>fuel. encode_attr_st fuel s (SRef a)) ?s2
                   (Returns (SRef (length s1)))"
        by (rule finishesI [of f1]) (use False f1 r1 in \<open>simp add: ds\<close>)
      have p2: "preserves s ?s2"
        using p1 preserves_append by (rule preserves_trans)
      have sub: "A \<union> {length s..<length s1} \<subseteq> {..<length s1}"
        using As p1 by (auto dest!: preserves_length)
      have "represents_list (A \<union> {length s..<length ?s2}) ?s2 ys ys'"
        using rl preserves_append sub by (rule represents_list_preserved) auto
      moreover have "deref ?s2 (length s1) = Some (OList ys)"
        by (simp add: deref_def)
      moreover have "length s1 \<in> A \<union> {length s..<length ?s2}"
        using p1 by (auto dest!: preserves_length)
      ultimately have "represents (A \<union> {length s..<length ?s2}) ?s2 (SRef (length s1)) (VList ys')"
        by (intro rep_List)
      with fin2 p2 Inr ts npt show ?thesis
        unfolding enc_sim_def
        by (intro exI [of _ ?s2] exI [of _ "Returns (SRef (length s1))"]) simp
    qed
  qed
  from enc td show ?thesis ..
qed

lemma items_sim_Nil: "items_sim A s [] []"
proof -
  have "finishes (\<lambda>fuel. to_dict_items_st fuel s []) s (Returns [])"
    by (rule finishesI [of 0]) simp
  then show ?thesis
    unfolding items_sim_def
    by (intro exI [of _ s] exI [of _ "Returns []"]) (simp add: preserves_refl rep_list_Nil)
qed

lemma items_sim_Cons:
  assumes rep: "represents A s0 v t" and ag: "agree A s0 s"
    and td: "\<And>s. agree A s0 s \<Longrightarrow> td_sim A s v t"
    and rest: "\<And>s. agree A s0 s \<Longrightarrow> items_sim A s xs ts"
  shows "items_sim A s (v # xs) (t # ts)"
proof (cases v)
  case (SRef a)
  from ag have As: "A \<subseteq> {..<length s}" by (simp add: agree_def)
  from td [OF ag] SRef obtain s1 r1 where
    fin1: "finishes (\<lambda>fuel. to_dict_st fuel s a) s1 r1" and p1: "preserves s s1"
    and res1: "case to_dict t of
              Inl e \<Rightarrow> r1 = Raises e
            | Inr d \<Rightarrow> \<exists>out. r1 = Returns out \<and>
                  represents (A \<union> {length s..<length s1}) s1 (SRef out) (VDict d)"
    unfolding td_sim_def by blast
  from fin1 obtain f1 where f1: "\<And>n. f1 \<le> n \<Longrightarrow> to_dict_st n s a = (s1, r1)"
    unfolding finishes_def by blast
  show ?thesis
  proof (cases "to_dict t")
    case (Inl e)
    with res1 have r1: "r1 = Raises e" by simp
    have "finishes (\<lambda>fuel. to_dict_items_st fuel s (v # xs)) s1 (Raises e)"
      by (rule finishesI [of f1]) (use f1 r1 SRef in simp)
    with Inl p1 show ?thesis
      unfolding items_sim_def by (intro exI [of _ s1] exI [of _ "Raises e"]) simp
  next
    case (Inr d)
    with res1 obtain out where r1: "r1 = Returns out"
      and ro: "represents (A \<union> {length s..<length s1}) s1 (SRef out) (VDict d)"
      by auto
    from ag p1 have ag1: "agree A s0 s1" by (rule agree_preserves)
    from rest [OF ag1] obtain s2 r2 where
      fin2: "finishes (\<lambda>fuel. to_dict_items_st fuel s1 xs) s2 r2" and p2: "preserves s1 s2"
      and res2: "case to_dict_items ts of
           Inl e \<Rightarrow> r2 = Raises e
         | Inr ys' \<Rightarrow> \<exists>ys. r2 = Returns ys \<and>
               represents_list (A \<union> {length s1..<length s2}) s2 ys ys'"
      unfolding items_sim_def by blast
    from fin2 obtain f2 where f2: "\<And>n. f2 \<le> n \<Longrightarrow> to_dict_items_st n s1 xs = (s2, r2)"
      unfolding finishes_def by blast
    from p1 p2 have p: "preserves s s2" by (rule preserves_trans)
    show ?thesis
    proof (cases "to_dict_items ts")
      case (Inl e)
      with res2 have r2: "r2 = Raises e" by simp
      have "finishes (\<lambda>fuel. to_dict_items_st fuel s (v # xs)) s2 (Raises e)"
        by (rule finishesI [of "max f1 f2"]) (use f1 f2 r1 r2 SRef in simp)
      with Inl Inr p show ?thesis
        unfolding items_sim_def by (intro exI [of _ s2] exI [of _ "Raises e"]) simp
    next
      case ys': (Inr ys')
      with res2 obtain ys where r2: "r2 = Returns ys"
        and rl: "represents_list (A \<union> {length s1..<length s2}) s2 ys ys'"
        by auto
      have fin: "finishes (\<lambda>fuel. to_dict_items_st fuel s (v # xs)) s2
                   (Returns (SRef out # ys))"
        by (rule finishesI [of "max f1 f2"]) (use f1 f2 r1 r2 SRef in simp)
      have sub: "A \<union> {length s..<length s1} \<subseteq> {..<length s1}"
        using As p1 by (auto dest!: preserves_length)
      have "represents (A \<union> {length s..<length s2}) s2 (SRef out) (VDict d)"
        using ro p2 sub by (rule represents_preserved) (use p2 in \<open>auto dest!: preserves_length\<close>)
      moreover have "represents_list (A \<union> {length s..<length s2}) s2 ys ys'"
        using rl by (rule represents_stable(3)) (use p1 in \<open>auto dest!: preserves_length\<close>)
      ultimately have "represents_list (A \<union> {length s..<length s2}) s2
                         (SRef out # ys) (VDict d # ys')"
        by (rule rep_list_Cons)
      with fin p Inr ys' show ?thesis
        unfolding items_sim_def
        by (intro exI [of _ s2] exI [of _ "Returns (SRef out # ys)"]) simp
    qed
  qed
next
  case SNone
  with rep have "to_dict t = Inl AttributeError" by (auto elim: represents.cases)
  moreover have "finishes (\<lambda>fuel. to_dict_items_st fuel s (v # xs)) s (Raises AttributeError)"
    by (rule finishesI [of 0]) (simp add: SNone)
  ultimately show ?thesis
    unfolding items_sim_def
    by (intro exI [of _ s] exI [of _ "Raises AttributeError"]) (simp add: preserves_refl)
next
  case (SStr x)
  with rep have "to_dict t = Inl AttributeError" by (auto elim: represents.cases)
  moreover have "finishes (\<lambda>fuel. to_dict_items_st fuel s (v # xs)) s (Raises AttributeError)"
    by (rule finishesI [of 0]) (simp add: SStr)
  ultimately show ?thesis
    unfolding items_sim_def
    by (intro exI [of _ s] exI [of _ "Raises AttributeError"]) (simp add: preserves_refl)
next
  case (SInt x)
  with rep have "to_dict t = Inl AttributeError" by (auto elim: represents.cases)
  moreover have "finishes (\<lambda>fuel. to_dict_items_st fuel s (v # xs)) s (Raises AttributeError)"
    by (rule finishesI [of 0]) (simp add: SInt)
  ultimately show ?thesis
    unfolding items_sim_def
    by (intro exI [of _ s] exI [of _ "Raises AttributeError"]) (simp add: preserves_refl)
next
  case (SBool x)
  with rep have "to_dict t = Inl AttributeError" by (auto elim: represents.cases)
  moreover have "finishes (\<lambda>fuel. to_dict_items_st fuel s (v # xs)) s (Raises AttributeError)"
    by (rule finishesI [of 0]) (simp add: SBool)
  ultimately show ?thesis
    unfolding items_sim_def
    by (intro exI [of _ s] exI [of _ "Raises AttributeError"]) (simp add: preserves_refl)
next
  case (SFloat x)
  with rep have "to_dict t = Inl AttributeError" by (auto elim: represents.cases)
  moreover have "finishes (\<lambda>fuel. to_dict_items_st fuel s (v # xs)) s (Raises AttributeError)"
    by (rule finishesI [of 0]) (simp add: SFloat)
  ultimately show ?thesis
    unfolding items_sim_def
    by (intro exI [of _ s] exI [of _ "Raises AttributeError"]) (simp add: preserves_refl)
next
  case (SEnum x)
  with rep have "to_dict t = Inl AttributeError" by (auto elim: represents.cases)
  moreover have "finishes (\<lambda>fuel. to_dict_items_st fuel s (v # xs)) s (Raises AttributeError)"
    by (rule finishesI [of 0]) (simp add: SEnum)
  ultimately show ?thesis
    unfolding items_sim_def
    by (intro exI [of _ s] exI [of _ "Raises AttributeError"]) (simp add: preserves_refl)
next
  case SOther
  with rep have "to_dict t = Inl AttributeError" by (auto elim: represents.cases)
  moreover have "finishes (\<lambda>fuel. to_dict_items_st fuel s (v # xs)) s (Raises AttributeError)"
    by (rule finishesI [of 0]) (simp add: SOther)
  ultimately show ?thesis
    unfolding items_sim_def
    by (intro exI [of _ s] exI [of _ "Raises AttributeError"]) (simp add: preserves_refl)
qed

text \<open>
  \<open>loop_ready A s self out acc tacc d\<close>: the state of the loop of \<open>to_dict\<close> when the
  attributes \<open>d\<close> of \<open>self\<close> are still to be encoded: the output dict at \<open>out\<close> is newer than
  the instance, holds \<open>acc\<close>, which unfolds into \<open>tacc\<close>, and has none of the names to come.
\<close>

definition loop_ready ::
  "nat set \<Rightarrow> store \<Rightarrow> nat \<Rightarrow> nat \<Rightarrow> (string \<times> sval) list \<Rightarrow> (string \<times> val) list \<Rightarrow>
   (string \<times> sval) list \<Rightarrow> bool"
where
  "loop_ready A s self out acc tacc d =
     (distinct (map fst d) \<and> (\<forall>(k, v) \<in> set d. getattr_st s self k = Some v) \<and>
      self \<in> A \<and> out < length s \<and> A \<subseteq> {..<out} \<and> deref s out = Some (ODict acc) \<and>
      represents_attrs (A \<union> {Suc out..<length s}) s acc tacc \<and>
      fst ` set acc \<inter> fst ` set d = {})"

lemma loop_sim_Nil:
  assumes "loop_ready A s self out acc tacc []"
  shows "loop_sim A s self out tacc [] []"
proof -
  have "finishes (\<lambda>fuel. to_dict_loop_st fuel s self out (get_attrs [])) s (Returns out)"
    by (rule finishesI [of 0]) (simp add: get_attrs_def)
  with assms show ?thesis
    unfolding loop_sim_def loop_ready_def
    by (intro exI [of _ s] exI [of _ "Returns out"]) (auto simp: preserves_but_refl)
qed

lemma update_fresh_key: "k \<notin> fst ` set acc \<Longrightarrow> AList.update k x acc = acc @ [(k, x)]"
  by (induction acc) auto

lemma loop_sim_Cons:
  assumes rep: "represents A s0 v t" and ag: "agree A s0 s"
    and enc: "\<And>s. agree A s0 s \<Longrightarrow> enc_sim A s v t"
    and rest: "\<And>s self out acc tacc. agree A s0 s \<Longrightarrow> loop_ready A s self out acc tacc d \<Longrightarrow>
                 loop_sim A s self out tacc d d'"
    and ready: "loop_ready A s self out acc tacc ((k, v) # d)"
  shows "loop_sim A s self out tacc ((k, v) # d) ((k, t) # d')"
proof (cases "is_data_attr k")
  case False
  from ready have "loop_ready A s self out acc tacc d"
    by (auto simp: loop_ready_def)
  from rest [OF ag this] False show ?thesis
    by (simp add: loop_sim_def get_attrs_def)
next
  case True
  from ready have dist: "distinct (map fst d)" "k \<notin> fst ` set d"
    and look: "getattr_st s self k = Some v" "\<forall>(k, v) \<in> set d. getattr_st s self k = Some v"
    and self: "self \<in> A" and out: "out < length s" "A \<subseteq> {..<out}"
    and acc: "deref s out = Some (ODict acc)"
      "represents_attrs (A \<union> {Suc out..<length s}) s acc tacc"
    and fresh: "k \<notin> fst ` set acc" "fst ` set acc \<inter> fst ` set d = {}"
    by (auto simp: loop_ready_def)
  from enc [OF ag] obtain s1 r1 where
    fin1: "finishes (\<lambda>fuel. encode_attr_st fuel s v) s1 r1" and p1: "preserves s s1"
    and res1: "case encode_attr t of
           Inl e \<Rightarrow> r1 = Raises e
         | Inr y \<Rightarrow> \<exists>x. r1 = Returns x \<and> represents (A \<union> {length s..<length s1}) s1 x y"
    unfolding enc_sim_def by blast
  from fin1 obtain f1 where f1: "\<And>n. f1 \<le> n \<Longrightarrow> encode_attr_st n s v = (s1, r1)"
    unfolding finishes_def by blast
  have names: "get_attrs ((k, v) # d) = k # get_attrs d"
    using True by (simp add: get_attrs_def)
  show ?thesis
  proof (cases "encode_attr t")
    case (Inl e)
    with res1 have r1: "r1 = Raises e" by simp
    have "finishes (\<lambda>fuel. to_dict_loop_st fuel s self out (get_attrs ((k, v) # d))) s1
            (Raises e)"
      by (rule finishesI [of f1]) (use f1 r1 look(1) in \<open>simp add: names\<close>)
    moreover from p1 have "preserves_but out s s1" by (rule preserves_imp_but)
    ultimately show ?thesis
      using Inl True unfolding loop_sim_def
      by (intro exI [of _ s1] exI [of _ "Raises e"]) simp
  next
    case (Inr y)
    with res1 obtain x where r1: "r1 = Returns x"
      and rx: "represents (A \<union> {length s..<length s1}) s1 x y"
      by auto
    let ?acc2 = "acc @ [(k, x)]"
    let ?s2 = "s1[out := ODict ?acc2]"
    from p1 out(1) acc(1) have d1: "deref s1 out = Some (ODict acc)"
      by (simp add: preserves_deref)
    then have set: "setitem_st s1 out k x = ?s2"
      using fresh(1) by (simp add: setitem_st_def update_fresh_key)
    from p1 have len: "length s \<le> length s1" by (rule preserves_length)
    have other: "deref ?s2 a = deref s1 a" if "a \<noteq> out" for a
      using that by (simp add: deref_def)
    have ag2: "agree A s0 ?s2"
    proof -
      from ag p1 have "agree A s0 s1" by (rule agree_preserves)
      moreover have "a \<noteq> out" if "a \<in> A" for a using that out(2) by auto
      ultimately show ?thesis by (auto simp: agree_def other)
    qed
    have ready2: "loop_ready A ?s2 self out ?acc2 (tacc @ [(k, y)]) d"
    proof -
      have "self \<noteq> out" using self out(2) by auto
      moreover from self ag have "self < length s" by (auto simp: agree_def)
      ultimately have "getattr_st ?s2 self = getattr_st s self"
        using p1 by (auto simp: getattr_st_def other preserves_deref)
      with look(2) have 1: "\<forall>(k, v) \<in> set d. getattr_st ?s2 self k = Some v" by simp
      have 2: "deref ?s2 out = Some (ODict ?acc2)"
        using out(1) len by (simp add: deref_def)
      have "represents_attrs (A \<union> {Suc out..<length ?s2}) ?s2 acc tacc"
        using acc(2)
      proof (rule represents_stable(2))
        show "A \<union> {Suc out..<length s} \<subseteq> A \<union> {Suc out..<length ?s2}"
          using len by auto
        show "\<forall>a \<in> A \<union> {Suc out..<length s}. deref ?s2 a = deref s a"
        proof
          fix a assume a: "a \<in> A \<union> {Suc out..<length s}"
          with out have "a \<noteq> out" "a < length s" by auto
          with p1 show "deref ?s2 a = deref s a" by (simp add: other preserves_deref)
        qed
      qed
      moreover have "represents (A \<union> {Suc out..<length ?s2}) ?s2 x y"
        using rx
      proof (rule represents_stable(1))
        show "A \<union> {length s..<length s1} \<subseteq> A \<union> {Suc out..<length ?s2}"
          using out(1) by auto
        show "\<forall>a \<in> A \<union> {length s..<length s1}. deref ?s2 a = deref s1 a"
          using out by (auto simp: other)
      qed
      ultimately have 3: "represents_attrs (A \<union> {Suc out..<length ?s2}) ?s2 ?acc2
                            (tacc @ [(k, y)])"
        by (rule represents_attrs_append)
      from fresh dist have 4: "fst ` set ?acc2 \<inter> fst ` set d = {}" by auto
      from dist(1) 1 self out len 2 3 4 show ?thesis
        by (simp add: loop_ready_def)
    qed
    from rest [OF ag2 ready2] obtain s3 r3 where
      fin3: "finishes (\<lambda>fuel. to_dict_loop_st fuel ?s2 self out (get_attrs d)) s3 r3"
      and p3: "preserves_but out ?s2 s3"
      and res3: "case to_dict_loop d' of
           Inl e \<Rightarrow> r3 = Raises e
         | Inr od \<Rightarrow>
             r3 = Returns out \<and>
             (\<exists>fin. deref s3 out = Some (ODict fin) \<and>
                represents_attrs (A \<union> {Suc out..<length s3}) s3 fin ((tacc @ [(k, y)]) @ od))"
      unfolding loop_sim_def by blast
    from fin3 obtain f3 where
      f3: "\<And>n. f3 \<le> n \<Longrightarrow> to_dict_loop_st n ?s2 self out (get_attrs d) = (s3, r3)"
      unfolding finishes_def by blast
    have fin: "finishes (\<lambda>fuel. to_dict_loop_st fuel s self out (get_attrs ((k, v) # d))) s3 r3"
      by (rule finishesI [of "max f1 f3"]) (use f1 f3 r1 look(1) set in \<open>simp add: names\<close>)
    have pb: "preserves_but out s s3"
    proof -
      from p1 have "preserves_but out s s1" by (rule preserves_imp_but)
      moreover have "preserves_but out s1 ?s2"
        by (simp add: preserves_but_def)
      ultimately have "preserves_but out s ?s2" by (rule preserves_but_trans)
      then show ?thesis using p3 by (rule preserves_but_trans)
    qed
    from fin pb res3 Inr True show ?thesis
      unfolding loop_sim_def
      by (intro exI [of _ s3] exI [of _ r3]) (auto split: sum.splits)
  qed
qed

lemma sim_Model:
  assumes d: "deref s0 a = Some (OModel c attrs)" and dist: "distinct (map fst attrs)"
    and a: "a \<in> A" and ag: "agree A s0 s"
    and loop: "\<And>s self out acc tacc. agree A s0 s \<Longrightarrow> loop_ready A s self out acc tacc attrs \<Longrightarrow>
                 loop_sim A s self out tacc attrs attrs'"
  shows "enc_sim A s (SRef a) (VModel c attrs') \<and> td_sim A s (SRef a) (VModel c attrs')"
proof -
  let ?s1 = "s @ [ODict []]"
  let ?out = "length s"
  from d a ag have ds: "deref s a = Some (OModel c attrs)" by (simp add: agree_def)
  from ag have As: "A \<subseteq> {..<length s}" by (simp add: agree_def)
  with a have al: "a < length s" by auto
  have ag1: "agree A s0 ?s1" using ag preserves_append by (rule agree_preserves)
  have ds1: "deref ?s1 a = Some (OModel c attrs)"
    using ds al by (simp add: deref_def nth_append)
  have ready: "loop_ready A ?s1 a ?out [] [] attrs"
    using dist a As ds1
    by (auto simp: loop_ready_def getattr_st_def deref_def rep_attrs_Nil)
  from loop [OF ag1 ready] obtain s' r where
    fin: "finishes (\<lambda>fuel. to_dict_loop_st fuel ?s1 a ?out (get_attrs attrs)) s' r"
    and pb: "preserves_but ?out ?s1 s'"
    and res: "case to_dict_loop attrs' of
           Inl e \<Rightarrow> r = Raises e
         | Inr od \<Rightarrow>
             r = Returns ?out \<and>
             (\<exists>fin. deref s' ?out = Some (ODict fin) \<and>
                represents_attrs (A \<union> {Suc ?out..<length s'}) s' fin ([] @ od))"
    unfolding loop_sim_def by blast
  from fin obtain f0 where
    f0: "\<And>n. f0 \<le> n \<Longrightarrow> to_dict_loop_st n ?s1 a ?out (get_attrs attrs) = (s', r)"
    unfolding finishes_def by blast
  from pb have p: "preserves s s'" by (rule preserves_but_fresh)
  from pb have len: "length s < length s'" by (simp add: preserves_but_def)
  have fin_td: "finishes (\<lambda>fuel. to_dict_st fuel s a) s' r"
    by (rule finishesI [of f0]) (use f0 ds in simp)
  have out: "\<exists>out. r = Returns out \<and>
               represents (A \<union> {length s..<length s'}) s' (SRef out) (VDict od)"
    if od: "to_dict_loop attrs' = Inr od" for od
  proof -
    from res od obtain fin where r: "r = Returns ?out"
      and dout: "deref s' ?out = Some (ODict fin)"
      and rfin: "represents_attrs (A \<union> {Suc ?out..<length s'}) s' fin od"
      by auto
    from rfin have "represents_attrs (A \<union> {length s..<length s'}) s' fin od"
      by (rule represents_stable(2)) auto
    with dout len have "represents (A \<union> {length s..<length s'}) s' (SRef ?out) (VDict od)"
      by (intro rep_Dict [of _ _ _ fin]) auto
    with r show ?thesis by simp
  qed
  have td: "td_sim A s (SRef a) (VModel c attrs')"
    unfolding td_sim_def
  proof (intro allI impI)
    fix b assume "SRef a = SRef b"
    then have "b = a" by simp
    with fin_td p res out show "\<exists>s' r. finishes (\<lambda>fuel. to_dict_st fuel s b) s' r \<and>
        preserves s s' \<and>
        (case to_dict (VModel c attrs') of
           Inl e \<Rightarrow> r = Raises e
         | Inr d \<Rightarrow> \<exists>out. r = Returns out \<and>
               represents (A \<union> {length s..<length s'}) s' (SRef out) (VDict d))"
      by (intro exI [of _ s'] exI [of _ r]) (auto split: sum.splits)
  qed
  have enc: "enc_sim A s (SRef a) (VModel c attrs')"
  proof (cases "to_dict_loop attrs'")
    case (Inl e)
    with res have r: "r = Raises e" by simp
    have "finishes (\<lambda>fuel. encode_attr_st fuel s (SRef a)) s' (Raises e)"
    proof (rule finishesI [of "Suc f0"])
      fix n assume "Suc f0 \<le> n"
      then obtain m where n: "n = Suc m" "f0 \<le> m" by (cases n) auto
      with f0 [of m] ds r show "encode_attr_st (Suc n) s (SRef a) = (s', Raises e)"
        by simp
    qed
    with p Inl show ?thesis
      unfolding enc_sim_def by (intro exI [of _ s'] exI [of _ "Raises e"]) simp
  next
    case (Inr od)
    from out [OF Inr] obtain o' where r: "r = Returns o'"
      and ro: "represents (A \<union> {length s..<length s'}) s' (SRef o') (VDict od)"
      by blast
    have "finishes (\<lambda>fuel. encode_attr_st fuel s (SRef a)) s' (Returns (SRef o'))"
    proof (rule finishesI [of "Suc f0"])
      fix n assume "Suc f0 \<le> n"
      then obtain m where n: "n = Suc m" "f0 \<le> m" by (cases n) auto
      with f0 [of m] ds r show "encode_attr_st (Suc n) s (SRef a) = (s', Returns (SRef o'))"
        by simp
    qed
    with p Inr ro show ?thesis
      unfolding enc_sim_def by (intro exI [of _ s'] exI [of _ "Returns (SRef o')"]) simp
  qed
  from enc td show ?thesis ..
qed

lemma to_dict_st_simulates:
  "represents A s0 v t \<Longrightarrow> (\<And>s. agree A s0 s \<Longrightarrow> enc_sim A s v t \<and> td_sim A s v t)"
  "represents_attrs A s0 d d' \<Longrightarrow>
     (\<And>s self out acc tacc. agree A s0 s \<Longrightarrow> loop_ready A s self out acc tacc d \<Longrightarrow>
        loop_sim A s self out tacc d d')"
  "represents_list A s0 xs ts \<Longrightarrow> (\<And>s. agree A s0 s \<Longrightarrow> items_sim A s xs ts)"
proof (induction rule: represents_represents_attrs_represents_list.inducts)
  case rep_None
  show ?case by (rule sim_immediate) (auto intro: represents_represents_attrs_represents_list.intros)
next
  case (rep_Str x)
  show ?case by (rule sim_immediate) (auto intro: represents_represents_attrs_represents_list.intros)
next
  case (rep_Int i)
  show ?case by (rule sim_immediate) (auto intro: represents_represents_attrs_represents_list.intros)
next
  case (rep_Bool b)
  show ?case by (rule sim_immediate) (auto intro: represents_represents_attrs_represents_list.intros)
next
  case (rep_Float f)
  show ?case by (rule sim_immediate) (auto intro: represents_represents_attrs_represents_list.intros)
next
  case (rep_Enum n)
  show ?case by (rule sim_Enum)
next
  case rep_Other
  show ?case by (rule sim_Other)
next
  case (rep_Dict r d d')
  from rep_Dict(1-3) have "represents A s0 (SRef r) (VDict d')"
    by (rule represents_represents_attrs_represents_list.intros)
  then show ?case using rep_Dict(2,1,5) by (rule sim_Dict)
next
  case (rep_List r xs xs')
  from rep_List(1-3) have "represents A s0 (SRef r) (VList xs')"
    by (rule represents_represents_attrs_represents_list.intros)
  then show ?case using rep_List(2,3,1,5) rep_List(4) [OF rep_List(5)] by (rule sim_List)
next
  case (rep_Model r c attrs attrs')
  show ?case
  proof (rule sim_Model)
    show "deref s0 r = Some (OModel c attrs)" by fact
    show "distinct (map fst attrs)" by fact
    show "r \<in> A" by fact
    show "agree A s0 s" by fact
    show "loop_sim A s self out tacc attrs attrs'"
      if "agree A s0 s" "loop_ready A s self out acc tacc attrs" for s self out acc tacc
      using that rep_Model.IH by blast
  qed
next
  case rep_attrs_Nil
  then show ?case by (intro loop_sim_Nil)
next
  case (rep_attrs_Cons v t rest rest' k)
  show ?case
    using rep_attrs_Cons(1) rep_attrs_Cons(5) _ rep_attrs_Cons(4) rep_attrs_Cons(6)
  proof (rule loop_sim_Cons)
    fix s assume "agree A s0 s"
    then show "enc_sim A s v t" using rep_attrs_Cons(2) by blast
  qed
next
  case rep_list_Nil
  show ?case by (rule items_sim_Nil)
next
  case (rep_list_Cons v t rest rest')
  show ?case
    using rep_list_Cons(1) rep_list_Cons(5) _ rep_list_Cons(4)
  proof (rule items_sim_Cons)
    fix s assume "agree A s0 s"
    then show "td_sim A s v t" using rep_list_Cons(2) by blast
  qed
qed

text \<open>
  On a store in which \<open>self\<close> unfolds into the value \<open>t\<close>, \<^verbatim>\<open>self.to_dict()\<close> ends as
  \<open>to_dict t\<close> does: it raises the same error, or it returns the address of a dict that
  unfolds into the dict \<open>to_dict t\<close> returns; every object of the store it started in is
  unchanged.
\<close>

lemma to_dict_st_refines_to_dict:
  assumes "represents {..<length s} s (SRef self) t"
  shows "\<exists>s' r. finishes (\<lambda>fuel. to_dict_st fuel s self) s' r \<and> preserves s s' \<and>
           (case to_dict t of
              Inl e \<Rightarrow> r = Raises e
            | Inr d \<Rightarrow> \<exists>out. r = Returns out \<and>
                        represents {..<length s'} s' (SRef out) (VDict d))"
proof -
  have "agree {..<length s} s s" by (simp add: agree_def)
  with assms have "td_sim {..<length s} s (SRef self) t"
    using to_dict_st_simulates(1) by blast
  then obtain s' r where fin: "finishes (\<lambda>fuel. to_dict_st fuel s self) s' r"
    and p: "preserves s s'"
    and res: "case to_dict t of
              Inl e \<Rightarrow> r = Raises e
            | Inr d \<Rightarrow> \<exists>out. r = Returns out \<and>
                  represents ({..<length s} \<union> {length s..<length s'}) s' (SRef out) (VDict d)"
    unfolding td_sim_def by blast
  from p have "length s \<le> length s'" by (rule preserves_length)
  then have eq: "{..<length s} \<union> {length s..<length s'} = {..<length s'}" by auto
  from res have "case to_dict t of
              Inl e \<Rightarrow> r = Raises e
            | Inr d \<Rightarrow> \<exists>out. r = Returns out \<and>
                  represents {..<length s'} s' (SRef out) (VDict d)"
    by (simp only: eq)
  with fin p show ?thesis by blast
qed

text \<open>An instance whose list shares the nested model, and the value it unfolds into.\<close>

definition tree2 :: val where
  "tree2 = VModel ''Outer'' [(''name'', VStr ''n''),
      (''inner'', VModel ''Inner'' [(''a'', VInt 1)]),
      (''parts'', VList [VModel ''Inner'' [(''a'', VInt 1)], VModel ''Inner'' [(''a'', VInt 1)]]),
      (''e'', VEnum 4)]"

definition store2 :: store where
  "store2 =
     [OModel ''Outer'' [(''name'', SStr ''n''), (''inner'', SRef 1), (''parts'', SRef 2), (''e'', SEnum 4)],
      OModel ''Inner'' [(''a'', SInt 1)],
      OList [SRef 1, SRef 1]]"

lemma store2_represents: "represents {..<length store2} store2 (SRef 0) tree2"
  unfolding tree2_def
  by (rule represents_represents_attrs_represents_list.intros
      | simp add: store2_def deref_def)+

lemma store2_run:
  "\<exists>s' out. finishes (\<lambda>fuel. to_dict_st fuel store2 0) s' (Returns out) \<and>
     preserves store2 s' \<and>
     represents {..<length s'} s' (SRef out)
       (VDict [(''name'', VStr ''n''), (''inner'', VDict [(''a'', VInt 1)]),
               (''parts'', VList [VDict [(''a'', VInt 1)], VDict [(''a'', VInt 1)]]),
               (''e'', VInt 4)])"
proof -
  have "to_dict tree2 = Inr [(''name'', VStr ''n''), (''inner'', VDict [(''a'', VInt 1)]),
               (''parts'', VList [VDict [(''a'', VInt 1)], VDict [(''a'', VInt 1)]]),
               (''e'', VInt 4)]"
    by (simp add: tree2_def is_data_attr_def dir_TerraDataModel_def startswith_underscore_def)
  with to_dict_st_refines_to_dict [OF store2_represents] show ?thesis
    by auto
qed

end
